theory Spec2Isabelle
  imports Main "HOL-Library.Sublist"
begin

section \<open>Python strings and the built-in number parsers\<close>

text \<open>
  The scraper is Python. A Python \<open>str\<close> is modelled as a \<open>string\<close> whose characters
  are the code points below 256. The predicates below are Python's on these code points;
  only \<open>upper\<close> is Python's on ASCII alone and leaves the letters from 128 on as they
  are, where Python maps them to letters as well (never to a digit, a sign, a point,
  \<open>K\<close> or \<open>M\<close>).
\<close>

definition code :: "char \<Rightarrow> nat" where
  "code c = of_char c"

text \<open>
  \<open>str.isspace\<close>, the characters \<open>strip()\<close> removes: TAB, LF, VT, FF, CR, FS, GS, RS, US,
  the blank, NEL (133) and the no-break space (160).
\<close>

definition is_space :: "char \<Rightarrow> bool" where
  "is_space c =
     ((9 \<le> code c \<and> code c \<le> 13) \<or> (28 \<le> code c \<and> code c \<le> 32)
      \<or> code c = 133 \<or> code c = 160)"

text \<open>
  The white space \<open>int()\<close> and \<open>float()\<close> skip around a literal: the C white space and
  the two white-space characters from 128 on, but not FS, GS, RS and US.
\<close>

definition is_c_space :: "char \<Rightarrow> bool" where
  "is_c_space c =
     ((9 \<le> code c \<and> code c \<le> 13) \<or> code c = 32 \<or> code c = 133 \<or> code c = 160)"

definition is_digit :: "char \<Rightarrow> bool" where
  "is_digit c = (48 \<le> code c \<and> code c \<le> 57)"

definition digit_val :: "char \<Rightarrow> nat" where
  "digit_val c = code c - 48"

text \<open>\<open>s.strip()\<close>\<close>

definition strip :: "string \<Rightarrow> string" where
  "strip s = rev (dropWhile is_space (rev (dropWhile is_space s)))"

definition c_strip :: "string \<Rightarrow> string" where
  "c_strip s = rev (dropWhile is_c_space (rev (dropWhile is_c_space s)))"

text \<open>\<open>s.upper()\<close>\<close>

definition upper_char :: "char \<Rightarrow> char" where
  "upper_char c = (if 97 \<le> code c \<and> code c \<le> 122 then char_of (code c - 32) else c)"

definition upper :: "string \<Rightarrow> string" where
  "upper s = map upper_char s"

text \<open>\<open>s.replace(c, '')\<close> for a one-character \<open>c\<close>\<close>

definition remove_char :: "char \<Rightarrow> string \<Rightarrow> string" where
  "remove_char c s = filter (\<lambda>x. x \<noteq> c) s"

text \<open>\<open>s.startswith(p)\<close>\<close>

fun startswith :: "string \<Rightarrow> string \<Rightarrow> bool" where
  "startswith s [] = True"
| "startswith [] (p # ps) = False"
| "startswith (c # cs) (p # ps) = (c = p \<and> startswith cs ps)"

text \<open>\<open>p in s\<close> for strings: \<open>p\<close> occurs in \<open>s\<close>.\<close>

fun contains :: "string \<Rightarrow> string \<Rightarrow> bool" where
  "contains [] p = (p = [])"
| "contains (c # cs) p = (startswith (c # cs) p \<or> contains cs p)"

text \<open>
  A run of digits in which single underscores may stand between two digits (the
  \<open>digitpart\<close> of Python's grammar of numeric strings): the digits read and the rest.
\<close>

fun digitpart :: "string \<Rightarrow> string \<times> string" where
  "digitpart [] = ([], [])"
| "digitpart [c] = (if is_digit c then ([c], []) else ([], [c]))"
| "digitpart (c # u # cs) =
     (if \<not> is_digit c then ([], c # u # cs)
      else if u = CHR ''_'' \<and> (case cs of [] \<Rightarrow> False | d # _ \<Rightarrow> is_digit d)
        then (case digitpart cs of (ds, r) \<Rightarrow> (c # ds, r))
      else (case digitpart (u # cs) of (ds, r) \<Rightarrow> (c # ds, r)))"

definition digits_val :: "string \<Rightarrow> int" where
  "digits_val ds = foldl (\<lambda>a c. 10 * a + int (digit_val c)) 0 ds"

text \<open>An optional sign: whether it is a minus, and the rest.\<close>

fun sign_part :: "string \<Rightarrow> bool \<times> string" where
  "sign_part [] = (False, [])"
| "sign_part (c # cs) =
     (if c = CHR ''-'' then (True, cs) else if c = CHR ''+'' then (False, cs) else (False, c # cs))"

text \<open>
  \<open>int(s)\<close> for a string, base ten; \<open>None\<close> is \<open>ValueError\<close>. A literal of more than
  4300 digits is refused (CPython's default limit on the conversion).
\<close>

definition py_int :: "string \<Rightarrow> int option" where
  "py_int s =
     (case sign_part (c_strip s) of (neg, r) \<Rightarrow>
        (case digitpart r of (ds, rest) \<Rightarrow>
           if ds = [] \<or> length ds > 4300 \<or> rest \<noteq> [] then None
           else Some (if neg then - digits_val ds else digits_val ds)))"

subsection \<open>Binary64 floating point, exactly\<close>

text \<open>
  A Python \<open>float\<close> is an IEEE 754 binary64 number. A finite one is kept as the pair of an
  integer \<open>m\<close> and an exponent \<open>e\<close> of two, standing for \<open>m * 2 ^ e\<close>; every operation
  below rounds the exact result to the nearest representable number, ties to even, as the
  hardware does, so the model computes what Python computes, bit for bit.
\<close>

datatype pyfloat = FFinite int int | FInf bool | FNaN

text \<open>The number of binary digits of a positive integer (0 for the others).\<close>

function nbits :: "int \<Rightarrow> int" where
  "nbits n = (if n \<le> 0 then 0 else 1 + nbits (n div 2))"
  by pat_completeness auto
termination
  by (relation "measure nat") auto

declare nbits.simps [simp del]

text \<open>The fraction \<open>n * 2 ^ k / d\<close> as a pair of integers, for an integer \<open>k\<close>.\<close>

definition scale2 :: "int \<Rightarrow> int \<Rightarrow> int \<Rightarrow> int \<times> int" where
  "scale2 n k d = (if 0 \<le> k then (n * 2 ^ nat k, d) else (n, d * 2 ^ nat (- k)))"

text \<open>The integer nearest to \<open>n / d\<close> (\<open>n\<close> not negative, \<open>d\<close> positive), a tie to the even one.\<close>

definition round_half_even :: "int \<Rightarrow> int \<Rightarrow> int" where
  "round_half_even n d =
     (let q = n div d; r = n mod d
      in if 2 * r < d then q else if d < 2 * r then q + 1 else if even q then q else q + 1)"

text \<open>
  The binary64 number nearest to \<open>num / den\<close> (\<open>num\<close> not negative, \<open>den\<close> positive),
  negated when \<open>neg\<close>: \<open>e\<close> is the exponent of the leading bit, the last place is worth
  \<open>2 ^ (e - 52)\<close> (never less than \<open>2 ^ - 1074\<close>, the subnormal numbers), and a result
  of \<open>2 ^ 1024\<close> or more is infinite.
\<close>

definition to_double :: "bool \<Rightarrow> int \<Rightarrow> int \<Rightarrow> pyfloat" where
  "to_double neg num den =
     (if num = 0 then FFinite 0 0
      else
        let e0 = nbits num - nbits den;
            e = (case scale2 num (- e0) den of (a, b) \<Rightarrow> if b \<le> a then e0 else e0 - 1);
            p = max e (- 1022) - 52;
            r = (case scale2 num (- p) den of (a, b) \<Rightarrow> round_half_even a b)
        in if nbits r + p > 1024 then FInf neg
           else FFinite (if neg then - r else r) p)"

text \<open>The product of a float and the integer 1000 or 1000000 (exact as floats).\<close>

definition fmul :: "pyfloat \<Rightarrow> int \<Rightarrow> pyfloat" where
  "fmul x k =
     (case x of
        FFinite m e \<Rightarrow>
          (case scale2 (\<bar>m\<bar> * k) e 1 of (a, b) \<Rightarrow> to_double (m < 0) a b)
      | FInf neg \<Rightarrow> FInf neg
      | FNaN \<Rightarrow> FNaN)"

text \<open>
  \<open>int(x)\<close> for a float: truncation towards zero; an infinity raises \<open>OverflowError\<close> and
  a NaN \<open>ValueError\<close> (\<open>None\<close>).
\<close>

definition int_of_float :: "pyfloat \<Rightarrow> int option" where
  "int_of_float x =
     (case x of
        FFinite m e \<Rightarrow>
          Some (if 0 \<le> e then m * 2 ^ nat e
                else if 0 \<le> m then m div 2 ^ nat (- e) else - ((- m) div 2 ^ nat (- e)))
      | FInf _ \<Rightarrow> None
      | FNaN \<Rightarrow> None)"

text \<open>
  \<open>float(s)\<close> for a string; \<open>None\<close> is \<open>ValueError\<close>. After the white space and the sign:
  \<open>inf\<close>, \<open>infinity\<close> or \<open>nan\<close> in any case, or digits with an optional point (a digit on
  one side of it at least) and an optional exponent.
\<close>

definition exponent_part :: "string \<Rightarrow> int option" where
  "exponent_part s =
     (case s of
        [] \<Rightarrow> Some 0
      | c # cs \<Rightarrow>
          if c = CHR ''e'' \<or> c = CHR ''E'' then
            (case sign_part cs of (neg, r) \<Rightarrow>
               (case digitpart r of (ds, rest) \<Rightarrow>
                  if ds = [] \<or> rest \<noteq> [] then None
                  else Some (if neg then - digits_val ds else digits_val ds)))
          else None)"

definition decimal_value :: "bool \<Rightarrow> string \<Rightarrow> string \<Rightarrow> int \<Rightarrow> pyfloat" where
  "decimal_value neg ip fp ex =
     (let m = digits_val (ip @ fp); k = ex - int (length fp)
      in if 0 \<le> k then to_double neg (m * 10 ^ nat k) 1 else to_double neg m (10 ^ nat (- k)))"

definition py_float :: "string \<Rightarrow> pyfloat option" where
  "py_float s =
     (case sign_part (c_strip s) of (neg, r) \<Rightarrow>
        if upper r = ''INF'' \<or> upper r = ''INFINITY'' then Some (FInf neg)
        else if upper r = ''NAN'' then Some FNaN
        else
          (case digitpart r of (ip, r1) \<Rightarrow>
             (case r1 of
                [] \<Rightarrow> if ip = [] then None else Some (decimal_value neg ip [] 0)
              | c # r2 \<Rightarrow>
                  if c = CHR ''.'' then
                    (case digitpart r2 of (fp, r3) \<Rightarrow>
                       if ip = [] \<and> fp = [] then None
                       else (case exponent_part r3 of
                               None \<Rightarrow> None
                             | Some ex \<Rightarrow> Some (decimal_value neg ip fp ex)))
                  else if ip = [] then None
                  else (case exponent_part r1 of
                          None \<Rightarrow> None
                        | Some ex \<Rightarrow> Some (decimal_value neg ip [] ex)))))"

section \<open>CountParser: \<open>_parse_count\<close>\<close>

text \<open>
  The body of the \<open>try\<close>: \<open>None\<close> when it raises. The bare \<open>except\<close> turns every
  exception into 0.
\<close>

definition parse_count_try :: "string \<Rightarrow> int option" where
  "parse_count_try count_str =
     (let s = upper (strip count_str)
      in if CHR ''K'' \<in> set s then
           (case py_float (remove_char (CHR ''K'') s) of
              None \<Rightarrow> None
            | Some x \<Rightarrow> int_of_float (fmul x 1000))
         else if CHR ''M'' \<in> set s then
           (case py_float (remove_char (CHR ''M'') s) of
              None \<Rightarrow> None
            | Some x \<Rightarrow> int_of_float (fmul x 1000000))
         else py_int s)"

definition parse_count :: "string \<Rightarrow> int" where
  "parse_count count_str = (case parse_count_try count_str of None \<Rightarrow> 0 | Some n \<Rightarrow> n)"

section \<open>Python values\<close>

text \<open>
  The scraper passes dictionaries around: the values of the embedded JSON, the records it
  builds, and (in the comment list) element handles of the browser. A dictionary is an
  association list in insertion order with string keys; \<open>PHandle\<close> is a handle of a
  comment node, with what the browser answers about that node.
\<close>

datatype exn = PlaywrightTimeout | Error string

datatype sel_result = NoMatch | Raises | Text string

record comment_node =
  cn_query :: "(string \<times> sel_result) list"
  cn_inner_text :: "string option"

datatype pyval =
    PNone
  | PBool bool
  | PInt int
  | PFloat pyfloat
  | PStr string
  | PList "pyval list"
  | PDict "(string \<times> pyval) list"
  | PHandle comment_node

type_synonym pydict = "(string \<times> pyval) list"

text \<open>\<open>d.get(k, dflt)\<close> and \<open>d.get(k)\<close> on a dictionary, \<open>k in d\<close>, \<open>d[k] = v\<close>.\<close>

definition dget :: "pydict \<Rightarrow> string \<Rightarrow> pyval \<Rightarrow> pyval" where
  "dget d k dflt = (case map_of d k of None \<Rightarrow> dflt | Some v \<Rightarrow> v)"

definition has_key :: "pydict \<Rightarrow> string \<Rightarrow> bool" where
  "has_key d k = (map_of d k \<noteq> None)"

fun dset :: "pydict \<Rightarrow> string \<Rightarrow> pyval \<Rightarrow> pydict" where
  "dset [] k v = [(k, v)]"
| "dset ((k', v') # d) k v = (if k' = k then (k, v) # d else (k', v') # dset d k v)"

text \<open>
  \<open>x.get(k, dflt)\<close> on any value: only a dictionary has the method; on the others the
  call raises \<open>AttributeError\<close> (\<open>None\<close>).
\<close>

definition py_get :: "pyval \<Rightarrow> string \<Rightarrow> pyval \<Rightarrow> pyval option" where
  "py_get x k dflt = (case x of PDict d \<Rightarrow> Some (dget d k dflt) | _ \<Rightarrow> None)"

text \<open>
  \<open>k in x\<close> for a string \<open>k\<close>: a key of a dictionary, an element of a list, a part of a
  string; on the other values \<open>TypeError\<close> (\<open>None\<close>).
\<close>

definition py_contains :: "string \<Rightarrow> pyval \<Rightarrow> bool option" where
  "py_contains k x =
     (case x of
        PDict d \<Rightarrow> Some (has_key d k)
      | PList xs \<Rightarrow> Some (PStr k \<in> set xs)
      | PStr s \<Rightarrow> Some (contains s k)
      | _ \<Rightarrow> None)"

text \<open>
  \<open>x[k]\<close> for a string \<open>k\<close>: the value of a dictionary's key; \<open>KeyError\<close> on a missing
  key and \<open>TypeError\<close> on every other value (\<open>None\<close>).
\<close>

definition py_item :: "pyval \<Rightarrow> string \<Rightarrow> pyval option" where
  "py_item x k = (case x of PDict d \<Rightarrow> map_of d k | _ \<Rightarrow> None)"

text \<open>
  \<open>for t in x\<close>: the elements of a list, the keys of a dictionary, the characters of a
  string; \<open>TypeError\<close> on the others (\<open>None\<close>).
\<close>

definition py_iter :: "pyval \<Rightarrow> pyval list option" where
  "py_iter x =
     (case x of
        PList xs \<Rightarrow> Some xs
      | PDict d \<Rightarrow> Some (map (\<lambda>kv. PStr (fst kv)) d)
      | PStr s \<Rightarrow> Some (map (\<lambda>c. PStr [c]) s)
      | _ \<Rightarrow> None)"

text \<open>\<open>x > 0\<close>: numbers compare, anything else raises \<open>TypeError\<close> (\<open>None\<close>).\<close>

definition py_gt0 :: "pyval \<Rightarrow> bool option" where
  "py_gt0 x =
     (case x of
        PInt n \<Rightarrow> Some (0 < n)
      | PBool b \<Rightarrow> Some b
      | PFloat f \<Rightarrow> Some (case f of FFinite m e \<Rightarrow> 0 < m | FInf neg \<Rightarrow> \<not> neg | FNaN \<Rightarrow> False)
      | _ \<Rightarrow> None)"

text \<open>\<open>xs[:n]\<close>: a negative \<open>n\<close> counts from the end.\<close>

definition py_take :: "int \<Rightarrow> 'a list \<Rightarrow> 'a list" where
  "py_take n xs = (if 0 \<le> n then take (nat n) xs else take (nat (int (length xs) + n)) xs)"

text \<open>All collected \<open>Some\<close> values, or \<open>None\<close> when one element fails.\<close>

fun those_map :: "('a \<Rightarrow> 'b option) \<Rightarrow> 'a list \<Rightarrow> 'b list option" where
  "those_map f [] = Some []"
| "those_map f (x # xs) =
     (case f x of
        None \<Rightarrow> None
      | Some y \<Rightarrow> (case those_map f xs of None \<Rightarrow> None | Some ys \<Rightarrow> Some (y # ys)))"

text \<open>
  What the model takes from the Python run time rather than from the scraper:
  \<open>json.loads\<close> (\<open>None\<close> when it raises), \<open>str()\<close> of a float, a list, a dictionary or a
  handle, and the clock's \<open>datetime.now().isoformat()\<close>.
\<close>

record runtime =
  json_loads :: "string \<Rightarrow> pyval option"
  repr :: "pyval \<Rightarrow> string"
  now :: string

function show_nat :: "nat \<Rightarrow> string" where
  "show_nat n =
     (if n < 10 then [char_of (48 + n)] else show_nat (n div 10) @ [char_of (48 + n mod 10)])"
  by pat_completeness auto
termination
  by (relation "measure id") auto

declare show_nat.simps [simp del]

text \<open>\<open>str(x)\<close>, as an f-string formats a value.\<close>

definition py_str :: "runtime \<Rightarrow> pyval \<Rightarrow> string" where
  "py_str rt x =
     (case x of
        PNone \<Rightarrow> ''None''
      | PBool b \<Rightarrow> (if b then ''True'' else ''False'')
      | PInt n \<Rightarrow> (if n < 0 then CHR ''-'' # show_nat (nat (- n)) else show_nat (nat n))
      | PStr s \<Rightarrow> s
      | _ \<Rightarrow> repr rt x)"

section \<open>StructuredExtractor, feed mode\<close>

text \<open>
  \<open>_parse_video_item\<close>: \<open>None\<close> when the body raises (a nested field that is present but
  is no dictionary has no \<open>get\<close>; \<open>challenges\<close> that cannot be iterated or hold something
  other than dictionaries).
\<close>

definition get2 :: "pydict \<Rightarrow> string \<Rightarrow> string \<Rightarrow> pyval \<Rightarrow> pyval option" where
  "get2 item k1 k2 dflt = py_get (dget item k1 (PDict [])) k2 dflt"

definition parse_video_item :: "runtime \<Rightarrow> pydict \<Rightarrow> pyval option" where
  "parse_video_item rt item =
     (case those_map (\<lambda>k. get2 item ''author'' k PNone) [''id'', ''uniqueId'', ''nickname''] of
        None \<Rightarrow> None
      | Some a \<Rightarrow>
     (case get2 item ''author'' ''verified'' (PBool False) of None \<Rightarrow> None | Some verified \<Rightarrow>
     (case get2 item ''author'' ''avatarThumb'' PNone of None \<Rightarrow> None | Some avatar \<Rightarrow>
     (case those_map (\<lambda>k. get2 item ''stats'' k (PInt 0))
             [''playCount'', ''diggCount'', ''commentCount'', ''shareCount''] of
        None \<Rightarrow> None
      | Some st \<Rightarrow>
     (case those_map (\<lambda>k. get2 item ''video'' k PNone)
             [''duration'', ''ratio'', ''cover'', ''downloadAddr'', ''playAddr''] of
        None \<Rightarrow> None
      | Some vd \<Rightarrow>
     (case those_map (\<lambda>k. get2 item ''music'' k PNone) [''id'', ''title'', ''authorName''] of
        None \<Rightarrow> None
      | Some mu \<Rightarrow>
     (case py_iter (dget item ''challenges'' (PList [])) of None \<Rightarrow> None | Some tags \<Rightarrow>
     (case those_map (\<lambda>tag. py_get tag ''title'' PNone) tags of None \<Rightarrow> None | Some titles \<Rightarrow>
     (case get2 item ''author'' ''uniqueId'' PNone of None \<Rightarrow> None | Some uid \<Rightarrow>
        Some (PDict
          [(''id'', dget item ''id'' PNone),
           (''description'', dget item ''desc'' (PStr [])),
           (''created_at'', dget item ''createTime'' PNone),
           (''author'', PDict (zip [''id'', ''username'', ''nickname''] a
                               @ [(''verified'', verified), (''avatar'', avatar)])),
           (''stats'', PDict (zip [''views'', ''likes'', ''comments'', ''shares''] st)),
           (''video'', PDict (zip [''duration'', ''ratio'', ''cover'', ''download_url'', ''play_url''] vd)),
           (''music'', PDict (zip [''id'', ''title'', ''author''] mu)),
           (''hashtags'', PList titles),
           (''url'', PStr (''https://www.tiktok.com/@'' @ py_str rt uid @ ''/video/''
                           @ py_str rt (dget item ''id'' PNone)))]))))))))))"

text \<open>
  \<open>_parse_hashtag_json\<close>. The record starts with no hashtag information and no videos,
  and the \<open>try\<close> keeps whatever was stored when something raises. Data that is no
  dictionary cannot get past the first two steps: in a list or a string the \<open>in\<close> test
  is a membership test and the subscript by a string raises \<open>TypeError\<close>, so the loop
  over them ends without a video (by that exception at the latest); on the other values
  \<open>in\<close> itself raises.
\<close>

definition hashtag_result :: "runtime \<Rightarrow> string \<Rightarrow> pyval \<Rightarrow> pyval list \<Rightarrow> pydict" where
  "hashtag_result rt hashtag info vids =
     [(''hashtag'', PStr hashtag), (''scraped_at'', PStr (now rt)),
      (''hashtag_info'', info), (''videos'', PList vids)]"

definition hashtag_info_of :: "pydict \<Rightarrow> pyval" where
  "hashtag_info_of info =
     PDict [(''id'', dget info ''id'' PNone),
            (''title'', dget info ''title'' PNone),
            (''description'', dget info ''desc'' PNone),
            (''view_count'', dget info ''viewCount'' PNone),
            (''video_count'', dget info ''videoCount'' PNone),
            (''is_commerce'', dget info ''isCommerce'' (PBool False))]"

text \<open>The challenge information of the scope: \<open>None\<close> when reading it raises.\<close>

definition challenge_info :: "pydict \<Rightarrow> pyval option" where
  "challenge_info scope =
     (case map_of scope ''webapp.challenge-detail'' of
        None \<Rightarrow> Some (PDict [])
      | Some challenge \<Rightarrow>
          (case py_contains ''challengeInfo'' challenge of
             None \<Rightarrow> None
           | Some present \<Rightarrow>
               if present then
                 (case py_item challenge ''challengeInfo'' of None \<Rightarrow> None | Some ci \<Rightarrow>
                 (case py_item ci ''challenge'' of None \<Rightarrow> None | Some info \<Rightarrow>
                 (case info of PDict i \<Rightarrow> Some (hashtag_info_of i) | _ \<Rightarrow> None)))
               else Some (PDict [])))"

text \<open>The videos of one item list, and of every item list of the scope, in order.\<close>

definition item_videos :: "runtime \<Rightarrow> pydict \<Rightarrow> pyval list" where
  "item_videos rt items =
     List.map_filter
       (\<lambda>entry. case snd entry of
                   PDict item_data \<Rightarrow>
                     if has_key item_data ''video'' then parse_video_item rt item_data else None
                 | _ \<Rightarrow> None)
       items"

definition scope_videos :: "runtime \<Rightarrow> pydict \<Rightarrow> pyval list" where
  "scope_videos rt scope =
     concat (map (\<lambda>entry.
                    if contains (fst entry) ''itemList'' \<or> contains (fst entry) ''itemModule''
                    then (case snd entry of PDict items \<Rightarrow> item_videos rt items | _ \<Rightarrow> [])
                    else [])
                 scope)"

definition parse_hashtag_json :: "runtime \<Rightarrow> pyval \<Rightarrow> string \<Rightarrow> pydict" where
  "parse_hashtag_json rt data hashtag =
     (case data of
        PDict d \<Rightarrow>
          (case map_of d ''__DEFAULT_SCOPE__'' of
             Some (PDict scope) \<Rightarrow>
               (case challenge_info scope of
                  None \<Rightarrow> hashtag_result rt hashtag (PDict []) []
                | Some info \<Rightarrow> hashtag_result rt hashtag info (scope_videos rt scope))
           | _ \<Rightarrow> hashtag_result rt hashtag (PDict []) [])
      | _ \<Rightarrow> hashtag_result rt hashtag (PDict []) [])"

text \<open>
  \<open>_extract_from_json\<close>, given what the page's script evaluation yields: an exception, no
  script (or an empty text), or the text of the embedded payload.
\<close>

definition no_videos :: "string \<Rightarrow> pydict" where
  "no_videos hashtag = [(''hashtag'', PStr hashtag), (''videos'', PList [])]"

definition extract_from_json :: "runtime \<Rightarrow> exn + string option \<Rightarrow> string \<Rightarrow> pydict" where
  "extract_from_json rt script hashtag =
     (case script of
        Inl e \<Rightarrow> no_videos hashtag
      | Inr None \<Rightarrow> no_videos hashtag
      | Inr (Some script_data) \<Rightarrow>
          if script_data = [] then no_videos hashtag
          else (case json_loads rt script_data of
                  None \<Rightarrow> no_videos hashtag
                | Some data \<Rightarrow> parse_hashtag_json rt data hashtag))"

section \<open>ElementExtractor and ScrollCollector\<close>

text \<open>
  A feed item as the browser shows it: the \<open>href\<close> of its first link (the query or the
  attribute read may raise, and either may find nothing) and its visible text (\<open>None\<close>
  when reading it raises).
\<close>

datatype href_result = HrefRaises | HrefNone | Href string

record feed_element =
  fe_href :: href_result
  fe_inner_text :: "string option"

text \<open>\<open>re.search(r'/video/(\d+)', url)\<close>: the digits of the leftmost match.\<close>

fun video_id :: "string \<Rightarrow> string option" where
  "video_id [] = None"
| "video_id (c # cs) =
     (if startswith (c # cs) ''/video/'' \<and> takeWhile is_digit (drop 7 (c # cs)) \<noteq> []
      then Some (takeWhile is_digit (drop 7 (c # cs)))
      else video_id cs)"

definition extract_video_info_from_element :: "feed_element \<Rightarrow> string \<Rightarrow> pyval option" where
  "extract_video_info_from_element element url =
     (case fe_inner_text element of
        None \<Rightarrow> None
      | Some stats_text \<Rightarrow>
          Some (PDict
            [(''id'', case video_id url of None \<Rightarrow> PNone | Some i \<Rightarrow> PStr i),
             (''url'', PStr (if startswith url ''http'' then url else ''https://www.tiktok.com'' @ url)),
             (''stats_text'', PStr stats_text),
             (''scraped_via'', PStr ''html_scroll''),
             (''stats'', PDict [(''views'', PInt 0), (''likes'', PInt 0),
                                (''comments'', PInt 0), (''shares'', PInt 0)])]))"

text \<open>
  The \<open>for\<close> loop over the elements of one round: it stops at \<open>max_videos\<close>, skips an
  element whose handling raises, and appends a record when the \<open>href\<close> is not among the
  \<open>url\<close>s collected so far.
\<close>

definition urls_of :: "pyval list \<Rightarrow> pyval list option" where
  "urls_of vs = those_map (\<lambda>v. py_get v ''url'' PNone) vs"

definition collect_one :: "feed_element \<Rightarrow> pyval list \<Rightarrow> pyval list" where
  "collect_one element vs =
     (case fe_href element of
        Href href \<Rightarrow>
          (case urls_of vs of
             None \<Rightarrow> vs
           | Some urls \<Rightarrow>
               if href \<noteq> [] \<and> PStr href \<notin> set urls then
                 (case extract_video_info_from_element element href of
                    None \<Rightarrow> vs
                  | Some video_info \<Rightarrow> vs @ [video_info])
               else vs)
      | _ \<Rightarrow> vs)"

fun collect :: "int \<Rightarrow> feed_element list \<Rightarrow> pyval list \<Rightarrow> pyval list" where
  "collect max_videos [] vs = vs"
| "collect max_videos (element # elements) vs =
     (if max_videos \<le> int (length vs) then vs
      else collect max_videos elements (collect_one element vs))"

text \<open>
  One round of the \<open>while\<close> loop as the page answers it: the elements it shows, and the
  scroll height before and after the scroll; \<open>Inl\<close> when a call of the round outside the
  element loop raises, which ends \<open>_scrape_videos_by_scrolling\<close> with that exception.
\<close>

record scroll_round =
  sr_elements :: "feed_element list"
  sr_current_height :: int
  sr_new_height :: int

record scroll_state =
  st_videos :: "pyval list"
  st_attempts :: nat
  st_rounds :: nat

definition scroll_step :: "int \<Rightarrow> scroll_round \<Rightarrow> scroll_state \<Rightarrow> scroll_state" where
  "scroll_step max_videos r st =
     \<lparr>st_videos = collect max_videos (sr_elements r) (st_videos st),
      st_attempts = (if sr_new_height r = sr_current_height r then st_attempts st + 1 else 0),
      st_rounds = Suc (st_rounds st)\<rparr>"

definition scroll_on :: "int \<Rightarrow> scroll_state \<Rightarrow> bool" where
  "scroll_on max_videos st = (int (length (st_videos st)) < max_videos \<and> st_attempts st < 20)"

partial_function (option) scroll_loop ::
  "(nat \<Rightarrow> exn + scroll_round) \<Rightarrow> int \<Rightarrow> scroll_state \<Rightarrow> (exn + scroll_state) option" where
  "scroll_loop feed max_videos st =
     (if scroll_on max_videos st then
        (case feed (st_rounds st) of
           Inl e \<Rightarrow> Some (Inl e)
         | Inr r \<Rightarrow> scroll_loop feed max_videos (scroll_step max_videos r st))
      else Some (Inr st))"

declare scroll_loop.simps [code]

section \<open>StructuredExtractor, detail mode: \<open>_parse_video_details_json\<close>\<close>

text \<open>\<open>k in x\<close> and then \<open>x[k]\<close>: \<open>None\<close> when the key is not there or a step raises.\<close>

definition lookup_in :: "string \<Rightarrow> pyval \<Rightarrow> pyval option" where
  "lookup_in k x =
     (case py_contains k x of
        None \<Rightarrow> None
      | Some present \<Rightarrow> if present then py_item x k else None)"

definition detail_item :: "pyval \<Rightarrow> pyval option" where
  "detail_item data =
     Option.bind (lookup_in ''__DEFAULT_SCOPE__'' data) (\<lambda>scope.
     Option.bind (lookup_in ''webapp.video-detail'' scope) (\<lambda>detail.
     Option.bind (lookup_in ''itemInfo'' detail) (\<lambda>item_info.
       lookup_in ''itemStruct'' item_info)))"

text \<open>
  A part of the record that is written only when the item has the key: nothing without
  the key, \<open>None\<close> when its value is no dictionary (its \<open>get\<close> raises).
\<close>

definition opt_section :: "pydict \<Rightarrow> string \<Rightarrow> (pydict \<Rightarrow> pyval) \<Rightarrow> pydict option" where
  "opt_section item key build =
     (case map_of item key of
        None \<Rightarrow> Some []
      | Some (PDict d) \<Rightarrow> Some [(key, build d)]
      | Some _ \<Rightarrow> None)"

definition detail_author :: "pydict \<Rightarrow> pyval" where
  "detail_author author =
     PDict [(''id'', dget author ''id'' PNone),
            (''username'', dget author ''uniqueId'' PNone),
            (''nickname'', dget author ''nickname'' PNone),
            (''verified'', dget author ''verified'' (PBool False)),
            (''avatar'', dget author ''avatarThumb'' PNone),
            (''signature'', dget author ''signature'' (PStr []))]"

definition detail_stats :: "pydict \<Rightarrow> pyval" where
  "detail_stats stats =
     PDict [(''views'', dget stats ''playCount'' (PInt 0)),
            (''likes'', dget stats ''diggCount'' (PInt 0)),
            (''comments'', dget stats ''commentCount'' (PInt 0)),
            (''shares'', dget stats ''shareCount'' (PInt 0)),
            (''saves'', dget stats ''collectCount'' (PInt 0))]"

definition detail_video :: "pydict \<Rightarrow> pyval" where
  "detail_video video =
     PDict [(''duration'', dget video ''duration'' PNone),
            (''ratio'', dget video ''ratio'' PNone),
            (''cover'', dget video ''cover'' PNone),
            (''download_url'', dget video ''downloadAddr'' PNone),
            (''play_url'', dget video ''playAddr'' PNone),
            (''width'', dget video ''width'' PNone),
            (''height'', dget video ''height'' PNone)]"

definition detail_music :: "pydict \<Rightarrow> pyval" where
  "detail_music music =
     PDict [(''id'', dget music ''id'' PNone),
            (''title'', dget music ''title'' PNone),
            (''author'', dget music ''authorName'' PNone),
            (''duration'', dget music ''duration'' PNone),
            (''original'', dget music ''original'' (PBool False))]"

definition detail_tag :: "pyval \<Rightarrow> pyval option" where
  "detail_tag tag =
     (case tag of
        PDict t \<Rightarrow>
          Some (PDict [(''id'', dget t ''id'' PNone),
                       (''title'', dget t ''title'' PNone),
                       (''description'', dget t ''desc'' (PStr []))])
      | _ \<Rightarrow> None)"

definition detail_hashtags :: "pydict \<Rightarrow> pydict option" where
  "detail_hashtags item =
     (case map_of item ''challenges'' of
        None \<Rightarrow> Some []
      | Some challenges \<Rightarrow>
          (case py_iter challenges of
             None \<Rightarrow> None
           | Some tags \<Rightarrow>
               (case those_map detail_tag tags of
                  None \<Rightarrow> None
                | Some ts \<Rightarrow> Some [(''hashtags'', PList ts)])))"

text \<open>
  \<open>None\<close> is both the \<open>return None\<close> of a payload without the item and the \<open>None\<close> the
  \<open>except\<close> clause returns. The source names the sections \<open>author\<close>, \<open>stats\<close>, \<open>video\<close>
  and \<open>music\<close> alike in the payload and in the record.
\<close>

definition parse_video_details_json :: "pyval \<Rightarrow> pyval \<Rightarrow> pydict option" where
  "parse_video_details_json data video_url =
     (case detail_item data of
        Some (PDict item) \<Rightarrow>
          Option.bind (opt_section item ''author'' detail_author) (\<lambda>author.
          Option.bind (opt_section item ''stats'' detail_stats) (\<lambda>stats.
          Option.bind (opt_section item ''video'' detail_video) (\<lambda>video.
          Option.bind (opt_section item ''music'' detail_music) (\<lambda>music.
          Option.bind (detail_hashtags item) (\<lambda>hashtags.
            Some ([(''url'', video_url),
                   (''scraped_via'', PStr ''video_page''),
                   (''id'', dget item ''id'' PNone),
                   (''description'', dget item ''desc'' (PStr [])),
                   (''created_at'', dget item ''createTime'' PNone)]
                  @ author @ stats @ video @ music @ hashtags))))))
      | _ \<Rightarrow> None)"

section \<open>CommentHarvester\<close>

text \<open>
  What a comment node answers to \<open>element.query_selector(selector)\<close> followed by
  \<open>inner_text()\<close>: no match, an exception in one of the two calls, or the text.
\<close>

definition query_node :: "comment_node \<Rightarrow> string \<Rightarrow> sel_result" where
  "query_node node selector = (case map_of (cn_query node) selector of None \<Rightarrow> NoMatch | Some r \<Rightarrow> r)"

text \<open>
  A selector chain: the selectors are tried in order, an exception or no match goes on to
  the next one, the first hit ends the loop; \<open>None\<close> when the loop ends without a hit.
\<close>

fun first_hit :: "comment_node \<Rightarrow> string list \<Rightarrow> string option" where
  "first_hit node [] = None"
| "first_hit node (selector # selectors) =
     (case query_node node selector of
        Text t \<Rightarrow> Some t
      | _ \<Rightarrow> first_hit node selectors)"

definition text_selectors :: "string list" where
  \<open>text_selectors =
     [''[data-e2e="comment-text"]'', ''[class*="CommentText"]'', ''span[class*="SpanText"]'']\<close>

definition username_selectors :: "string list" where
  \<open>username_selectors =
     [''[data-e2e="comment-username"]'', ''[class*="CommentUsername"]'',
      ''a[class*="StyledUserLinkName"]'']\<close>

definition like_selectors :: "string list" where
  \<open>like_selectors = [''[data-e2e="comment-like-count"]'', ''[class*="LikeCount"]'']\<close>

definition time_selectors :: "string list" where
  \<open>time_selectors = [''[data-e2e="comment-time"]'', ''span[class*="CommentTime"]'', ''time'']\<close>

text \<open>\<open>_extract_comment_data\<close>: \<open>None\<close> without a text, and when the body raises.\<close>

definition extract_comment_data :: "comment_node \<Rightarrow> pyval option" where
  "extract_comment_data element =
     (case (case first_hit element text_selectors of
              None \<Rightarrow> cn_inner_text element
            | Some t \<Rightarrow> if t = [] then cn_inner_text element else Some t) of
        None \<Rightarrow> None
      | Some comment_text \<Rightarrow>
          let username = (case first_hit element username_selectors of None \<Rightarrow> [] | Some t \<Rightarrow> t);
              likes = (case first_hit element like_selectors of None \<Rightarrow> 0 | Some t \<Rightarrow> parse_count t);
              timestamp = (case first_hit element time_selectors of None \<Rightarrow> [] | Some t \<Rightarrow> t)
          in if comment_text \<noteq> [] then
               Some (PDict [(''text'', PStr (strip comment_text)),
                            (''author'', PStr (if username \<noteq> [] then strip username else ''Unknown'')),
                            (''likes'', PInt likes),
                            (''timestamp'', PStr (if timestamp \<noteq> [] then strip timestamp else []))])
             else None)"

text \<open>
  The comment panel of a detail page: the comment icon (the query may raise, the icon
  may be missing, the click may raise), the comment nodes found after the click, and
  those found after each scroll (\<open>Inl\<close> when the scroll or the query raises).
\<close>

datatype button = Absent | Present "exn option"

record comment_panel =
  cp_icon :: "exn + button"
  cp_first :: "exn + comment_node list"
  cp_requery :: "nat \<Rightarrow> exn + comment_node list"

function comment_scroll ::
  "(nat \<Rightarrow> exn + comment_node list) \<Rightarrow> int \<Rightarrow> comment_node list \<Rightarrow> nat \<Rightarrow> comment_node list" where
  "comment_scroll requery max_comments comments scroll_attempts =
     (if int (length comments) < max_comments \<and> scroll_attempts < 5 then
        comment_scroll requery max_comments
          (case requery scroll_attempts of
             Inl e \<Rightarrow> comments
           | Inr elements \<Rightarrow> if length comments < length elements then elements else comments)
          (Suc scroll_attempts)
      else comments)"
  by pat_completeness auto
termination
  by (relation "measure (\<lambda>(requery, max_comments, comments, scroll_attempts). 5 - scroll_attempts)") auto

declare comment_scroll.simps [simp del]

text \<open>
  \<open>_scrape_comments_from_page\<close>. The list named \<open>comments\<close> holds the element handles;
  the extraction loop runs over a copy of its first \<open>max_comments\<close> entries and appends
  each extracted record to that same list, which is what the function returns.
\<close>

definition scrape_comments_from_page :: "comment_panel \<Rightarrow> int \<Rightarrow> pyval list" where
  "scrape_comments_from_page panel max_comments =
     (case cp_icon panel of
        Inr (Present None) \<Rightarrow>
          (case cp_first panel of
             Inl e \<Rightarrow> []
           | Inr first \<Rightarrow>
               if first = [] then []
               else
                 let comments = comment_scroll (cp_requery panel) max_comments first 0
                 in map PHandle comments
                    @ List.map_filter extract_comment_data (py_take max_comments comments))
      | _ \<Rightarrow> [])"

section \<open>DetailEnricher: \<open>scrape_video_details\<close>\<close>

text \<open>
  A detail page as the browser answers: opening the page, the navigation, the script
  evaluation, the comment panel and closing the page (\<open>Some e\<close>: the call raises \<open>e\<close>).
\<close>

record detail_page =
  dp_new_page :: "exn option"
  dp_goto :: "exn option"
  dp_script :: "exn + string option"
  dp_comments :: comment_panel
  dp_close :: "exn option"

text \<open>
  The comment step: \<open>None\<close> when comparing the comment count with 0 raises, which the
  outer \<open>except\<close> turns into the result \<open>None\<close>.
\<close>

definition attach_comments :: "comment_panel \<Rightarrow> int \<Rightarrow> pydict \<Rightarrow> pydict option" where
  "attach_comments panel max_comments video_details =
     (case py_get (dget video_details ''stats'' (PDict [])) ''comments'' (PInt 0) of
        None \<Rightarrow> None
      | Some comment_count \<Rightarrow>
          (case py_gt0 comment_count of
             None \<Rightarrow> None
           | Some positive \<Rightarrow>
               if positive then
                 (let comments = scrape_comments_from_page panel max_comments
                  in if comments \<noteq> [] then Some (dset video_details ''comments'' (PList comments))
                     else Some video_details)
               else Some video_details))"

text \<open>The inner \<open>try\<close>, after the page was opened; \<open>None\<close> is \<open>return None\<close> or an exception.\<close>

definition video_details_try ::
  "runtime \<Rightarrow> detail_page \<Rightarrow> pyval \<Rightarrow> bool \<Rightarrow> int \<Rightarrow> pydict option" where
  "video_details_try rt page video_url scrape_comments max_comments =
     (if dp_goto page \<noteq> None then None
      else
        (case dp_script page of
           Inl e \<Rightarrow> None
         | Inr None \<Rightarrow> None
         | Inr (Some script_data) \<Rightarrow>
             if script_data = [] then None
             else
               (case json_loads rt script_data of
                  None \<Rightarrow> None
                | Some data \<Rightarrow>
                    (case parse_video_details_json data video_url of
                       None \<Rightarrow> None
                     | Some video_details \<Rightarrow>
                         if scrape_comments
                         then attach_comments (dp_comments page) max_comments video_details
                         else Some video_details))))"

text \<open>
  \<open>scrape_video_details\<close>: every exception ends in \<open>None\<close>, also one raised by closing
  the page in the \<open>finally\<close> clause.
\<close>

definition scrape_video_details ::
  "runtime \<Rightarrow> detail_page \<Rightarrow> pyval \<Rightarrow> bool \<Rightarrow> int \<Rightarrow> pydict option" where
  "scrape_video_details rt page video_url scrape_comments max_comments =
     (if dp_new_page page \<noteq> None then None
      else if dp_close page \<noteq> None then None
      else video_details_try rt page video_url scrape_comments max_comments)"

section \<open>The enrichment loop and \<open>_scrape_videos_by_scrolling\<close>\<close>

text \<open>
  The detail pages of a session: the page the browser shows at the \<open>i\<close>-th visit (counted
  from 0) for a URL. A \<open>url\<close> that is no string makes the navigation raise inside
  \<open>scrape_video_details\<close>, so the result is \<open>None\<close>; a record without \<open>url\<close> makes
  \<open>video['url']\<close> raise \<open>KeyError\<close> out of the loop.
\<close>

definition key_error :: "string \<Rightarrow> exn" where
  "key_error k = Error ([CHR 0x27] @ k @ [CHR 0x27])"

definition detailed_info_of ::
  "runtime \<Rightarrow> (nat \<Rightarrow> string \<Rightarrow> detail_page) \<Rightarrow> bool \<Rightarrow> int \<Rightarrow> nat \<Rightarrow> pyval \<Rightarrow> pydict option" where
  "detailed_info_of rt visit scrape_comments max_comments i url =
     (case url of
        PStr u \<Rightarrow> scrape_video_details rt (visit i u) url scrape_comments max_comments
      | _ \<Rightarrow> None)"

fun enrich ::
  "runtime \<Rightarrow> (nat \<Rightarrow> string \<Rightarrow> detail_page) \<Rightarrow> bool \<Rightarrow> int \<Rightarrow> nat \<Rightarrow> pyval list \<Rightarrow> exn + pyval list" where
  "enrich rt visit scrape_comments max_comments i [] = Inr []"
| "enrich rt visit scrape_comments max_comments i (video # rest) =
     (case py_item video ''url'' of
        None \<Rightarrow> Inl (key_error ''url'')
      | Some url \<Rightarrow>
          (case enrich rt visit scrape_comments max_comments (Suc i) rest of
             Inl e \<Rightarrow> Inl e
           | Inr detailed_videos \<Rightarrow>
               Inr ((case detailed_info_of rt visit scrape_comments max_comments i url of
                       None \<Rightarrow> video
                     | Some detailed_info \<Rightarrow> PDict detailed_info) # detailed_videos)))"

text \<open>The state in which the loop is entered: no videos, no stagnant round.\<close>

definition start :: scroll_state where
  "start = \<lparr>st_videos = [], st_attempts = 0, st_rounds = 0\<rparr>"

text \<open>
  \<open>_scrape_videos_by_scrolling\<close>: the scroll loop from the empty list, then the
  enrichment when a browser context was passed (\<open>detailed\<close>), then the cut at
  \<open>max_videos\<close>. The outer \<open>option\<close> is \<open>None\<close> when the scroll loop never ends.
\<close>

definition scrape_videos_by_scrolling ::
  "runtime \<Rightarrow> (nat \<Rightarrow> exn + scroll_round) \<Rightarrow> (nat \<Rightarrow> string \<Rightarrow> detail_page) \<Rightarrow> int \<Rightarrow> bool \<Rightarrow> bool \<Rightarrow> int
     \<Rightarrow> (exn + pyval list) option" where
  "scrape_videos_by_scrolling rt feed visit max_videos detailed scrape_comments max_comments =
     (case scroll_loop feed max_videos start of
        None \<Rightarrow> None
      | Some (Inl e) \<Rightarrow> Some (Inl e)
      | Some (Inr st) \<Rightarrow>
          if detailed then
            (case enrich rt visit scrape_comments max_comments 0 (st_videos st) of
               Inl e \<Rightarrow> Some (Inl e)
             | Inr detailed_videos \<Rightarrow> Some (Inr (py_take max_videos detailed_videos)))
          else Some (Inr (py_take max_videos (st_videos st))))"

section \<open>FeedSession: \<open>_extract_hashtag_data\<close> and \<open>scrape_hashtag\<close>\<close>

text \<open>
  The feed page as the browser answers: the navigation, the Refresh button, the script
  evaluation and the scroll rounds. Playwright's \<open>Locator.click\<close> waits for the element
  and raises its \<open>TimeoutError\<close> when none shows up in time.
\<close>

record feed_page =
  fp_goto :: "exn option"
  fp_refresh :: button
  fp_script :: "exn + string option"
  fp_rounds :: "nat \<Rightarrow> exn + scroll_round"

definition locator_click :: "button \<Rightarrow> exn option" where
  "locator_click b = (case b of Absent \<Rightarrow> Some PlaywrightTimeout | Present r \<Rightarrow> r)"

text \<open>The truth value of a Python value, as \<open>if not x\<close> reads it.\<close>

definition truthy :: "pyval \<Rightarrow> bool" where
  "truthy x =
     (case x of
        PNone \<Rightarrow> False
      | PBool b \<Rightarrow> b
      | PInt n \<Rightarrow> n \<noteq> 0
      | PFloat f \<Rightarrow> (case f of FFinite m e \<Rightarrow> m \<noteq> 0 | _ \<Rightarrow> True)
      | PStr s \<Rightarrow> s \<noteq> []
      | PList xs \<Rightarrow> xs \<noteq> []
      | PDict d \<Rightarrow> d \<noteq> []
      | PHandle h \<Rightarrow> True)"

definition extract_hashtag_data ::
  "runtime \<Rightarrow> feed_page \<Rightarrow> (nat \<Rightarrow> string \<Rightarrow> detail_page) \<Rightarrow> string \<Rightarrow> int \<Rightarrow> bool \<Rightarrow> bool \<Rightarrow> int
     \<Rightarrow> (exn + pydict) option" where
  "extract_hashtag_data rt page visit hashtag max_videos detailed scrape_comments max_comments =
     (let hashtag_info = extract_from_json rt (fp_script page) hashtag
      in if truthy (dget hashtag_info ''videos'' PNone) then Some (Inr hashtag_info)
         else
           (case scrape_videos_by_scrolling rt (fp_rounds page) visit max_videos detailed
                   scrape_comments max_comments of
              None \<Rightarrow> None
            | Some (Inl e) \<Rightarrow> Some (Inl e)
            | Some (Inr vs) \<Rightarrow> Some (Inr (dset hashtag_info ''videos'' (PList vs)))))"

text \<open>The two \<open>except\<close> clauses of \<open>scrape_hashtag\<close>.\<close>

definition error_result :: "string \<Rightarrow> exn \<Rightarrow> pyval" where
  "error_result hashtag e =
     PDict [(''hashtag'', PStr hashtag), (''videos'', PList []),
            (''error'', PStr (case e of PlaywrightTimeout \<Rightarrow> ''timeout'' | Error msg \<Rightarrow> msg))]"

text \<open>
  \<open>scrape_hashtag\<close>, from the opened browser page on (launching and closing the browser
  are outside the model). \<open>None\<close>: the session never returns.
\<close>

definition scrape_hashtag ::
  "runtime \<Rightarrow> feed_page \<Rightarrow> (nat \<Rightarrow> string \<Rightarrow> detail_page) \<Rightarrow> string \<Rightarrow> int \<Rightarrow> bool \<Rightarrow> bool \<Rightarrow> int
     \<Rightarrow> pyval option" where
  "scrape_hashtag rt page visit hashtag0 max_videos detailed_scrape scrape_comments max_comments =
     (let hashtag = dropWhile (\<lambda>c. c = CHR ''#'') hashtag0
      in case fp_goto page of
           Some e \<Rightarrow> Some (error_result hashtag e)
         | None \<Rightarrow>
             (case locator_click (fp_refresh page) of
                Some e \<Rightarrow> Some (error_result hashtag e)
              | None \<Rightarrow>
                  (case extract_hashtag_data rt page visit hashtag max_videos detailed_scrape
                          scrape_comments max_comments of
                     None \<Rightarrow> None
                   | Some (Inl e) \<Rightarrow> Some (error_result hashtag e)
                   | Some (Inr hashtag_data) \<Rightarrow> Some (PDict hashtag_data))))"

section \<open>Notions used to state the properties\<close>

text \<open>
  A round that changed the scroll height: the height read after the scroll differs from
  the one read before it, upwards or downwards (a round that raises reads none). And a
  round in which the height grew.
\<close>

definition height_changed :: "exn + scroll_round \<Rightarrow> bool" where
  "height_changed r =
     (case r of Inl e \<Rightarrow> False | Inr d \<Rightarrow> sr_new_height d \<noteq> sr_current_height d)"

definition grew :: "exn + scroll_round \<Rightarrow> bool" where
  "grew r = (case r of Inl e \<Rightarrow> False | Inr d \<Rightarrow> sr_current_height d < sr_new_height d)"

text \<open>None of the first \<open>n\<close> rounds grew.\<close>

fun none_grew :: "(nat \<Rightarrow> exn + scroll_round) \<Rightarrow> nat \<Rightarrow> bool" where
  "none_grew feed 0 = True"
| "none_grew feed (Suc n) = (none_grew feed n \<and> \<not> grew (feed n))"

text \<open>
  \<open>a\<close> is the number of rounds in a row, counted back from round \<open>j\<close>, that left the
  height unchanged: the \<open>a\<close> rounds before round \<open>j\<close> did, and the round before those,
  if there is one, changed it.
\<close>

definition stagnant_run :: "(nat \<Rightarrow> exn + scroll_round) \<Rightarrow> nat \<Rightarrow> nat \<Rightarrow> bool" where
  "stagnant_run feed j a =
     (a \<le> j \<and> list_all (\<lambda>i. \<not> height_changed (feed i)) [j - a..<j]
      \<and> (a = j \<or> height_changed (feed (j - Suc a))))"

text \<open>
  The element at place \<open>i\<close> of round \<open>j\<close>, and the record the element extractor makes of
  an element (none without a non-empty \<open>href\<close>). A place is a pair of a round and an
  index in it; \<open>earlier\<close> orders the places as the loop visits them.
\<close>

definition shown :: "(nat \<Rightarrow> exn + scroll_round) \<Rightarrow> nat \<Rightarrow> nat \<Rightarrow> feed_element option" where
  "shown feed j i =
     (case feed j of
        Inl e \<Rightarrow> None
      | Inr r \<Rightarrow> if i < length (sr_elements r) then Some (sr_elements r ! i) else None)"

definition record_of :: "feed_element \<Rightarrow> pyval option" where
  "record_of el =
     (case fe_href el of
        Href h \<Rightarrow> if h = [] then None else extract_video_info_from_element el h
      | _ \<Rightarrow> None)"

definition earlier :: "nat \<times> nat \<Rightarrow> nat \<times> nat \<Rightarrow> bool" where
  "earlier p q = (fst p < fst q \<or> (fst p = fst q \<and> snd p < snd q))"

definition found_at :: "(nat \<Rightarrow> exn + scroll_round) \<Rightarrow> nat \<times> nat \<Rightarrow> pyval \<Rightarrow> bool" where
  "found_at feed p v =
     (case shown feed (fst p) (snd p) of None \<Rightarrow> False | Some el \<Rightarrow> record_of el = Some v)"

text \<open>
  The list \<open>vs\<close> is in order of discovery within the first \<open>j\<close> rounds: its entries are
  the records of elements shown at the places \<open>ps\<close>, one each, and the places go strictly
  forward.
\<close>

definition discovered ::
  "(nat \<Rightarrow> exn + scroll_round) \<Rightarrow> nat \<Rightarrow> (nat \<times> nat) list \<Rightarrow> pyval list \<Rightarrow> bool" where
  "discovered feed j ps vs =
     (list_all2 (found_at feed) ps vs \<and> sorted_wrt earlier ps \<and> list_all (\<lambda>p. fst p < j) ps)"

text \<open>\<open>v.get('url')\<close> of a collected record.\<close>

definition video_url :: "pyval \<Rightarrow> pyval" where
  "video_url v = (case v of PDict d \<Rightarrow> dget d ''url'' PNone | _ \<Rightarrow> PNone)"

text \<open>
  An element is settled in the list \<open>vs\<close>: the list is full, or the element's \<open>href\<close> is
  one of the \<open>url\<close>s in it, or its record is in it (an element that gives no record is
  settled in any list).
\<close>

definition settled :: "int \<Rightarrow> pyval list \<Rightarrow> feed_element \<Rightarrow> bool" where
  "settled max_videos vs el =
     (case fe_href el of
        Href h \<Rightarrow>
          (case record_of el of
             None \<Rightarrow> True
           | Some v \<Rightarrow>
               max_videos \<le> int (length vs) \<or> PStr h \<in> set (map video_url vs) \<or> v \<in> set vs)
      | _ \<Rightarrow> True)"

text \<open>The state of the scroll loop after its first \<open>k\<close> rounds.\<close>

fun state_after :: "(nat \<Rightarrow> exn + scroll_round) \<Rightarrow> int \<Rightarrow> nat \<Rightarrow> scroll_state" where
  "state_after feed max_videos 0 = start"
| "state_after feed max_videos (Suc k) =
     (case feed k of
        Inl e \<Rightarrow> state_after feed max_videos k
      | Inr r \<Rightarrow> scroll_step max_videos r (state_after feed max_videos k))"

section \<open>Example sessions\<close>

text \<open>
  A feed payload with one item, the same item under two item lists, and the payload of
  the item's detail page; a run time whose \<open>json.loads\<close> knows the three texts.
\<close>

definition feed_item :: pyval where
  "feed_item =
     PDict [(''id'', PStr ''7001''), (''desc'', PStr ''hello''),
            (''author'', PDict [(''uniqueId'', PStr ''ada'')]),
            (''stats'', PDict [(''commentCount'', PInt 3)]),
            (''video'', PDict [(''duration'', PInt 10)])]"

definition feed_payload :: pyval where
  "feed_payload =
     PDict [(''__DEFAULT_SCOPE__'', PDict [(''itemList'', PDict [(''7001'', feed_item)])])]"

definition twice_payload :: pyval where
  "twice_payload =
     PDict [(''__DEFAULT_SCOPE__'',
             PDict [(''itemList'', PDict [(''7001'', feed_item)]),
                    (''itemModule'', PDict [(''7001'', feed_item)])])]"

definition detail_payload :: pyval where
  "detail_payload =
     PDict [(''__DEFAULT_SCOPE__'',
             PDict [(''webapp.video-detail'',
                     PDict [(''itemInfo'',
                             PDict [(''itemStruct'',
                                     PDict [(''id'', PStr ''7001''), (''desc'', PStr ''hello''),
                                            (''stats'', PDict [(''commentCount'', PInt 3)])])])])])]"

definition rt0 :: runtime where
  "rt0 =
     \<lparr>json_loads = (\<lambda>s. if s = ''FEED'' then Some feed_payload
                         else if s = ''TWICE'' then Some twice_payload
                         else if s = ''DETAIL'' then Some detail_payload
                         else None),
      repr = (\<lambda>x. ''?''),
      now = ''2024-01-01T00:00:00''\<rparr>"

text \<open>A comment node with the text \<open>hi\<close>, one with a like count, and a panel showing one.\<close>

definition hi_node :: comment_node where
  \<open>hi_node = \<lparr>cn_query = [(''[data-e2e="comment-text"]'', Text ''hi'')], cn_inner_text = Some ''hi''\<rparr>\<close>

definition like_node :: "string \<Rightarrow> comment_node" where
  \<open>like_node t =
     \<lparr>cn_query = [(''[data-e2e="comment-text"]'', Text ''nice''),
                  (''[data-e2e="comment-like-count"]'', Text t)],
      cn_inner_text = Some ''nice''\<rparr>\<close>

definition one_comment_panel :: comment_panel where
  "one_comment_panel =
     \<lparr>cp_icon = Inr (Present None), cp_first = Inr [hi_node], cp_requery = (\<lambda>k. Inr [hi_node])\<rparr>"

text \<open>A detail page with the payload, and one without an embedded script.\<close>

definition rich_detail :: detail_page where
  "rich_detail =
     \<lparr>dp_new_page = None, dp_goto = None, dp_script = Inr (Some ''DETAIL''),
      dp_comments = one_comment_panel, dp_close = None\<rparr>"

definition bare_detail :: detail_page where
  "bare_detail =
     \<lparr>dp_new_page = None, dp_goto = None, dp_script = Inr None,
      dp_comments = one_comment_panel, dp_close = None\<rparr>"

text \<open>
  A feed that shows one item with the given \<open>href\<close> in every round and keeps its height; a
  feed page with an embedded script, and one without.
\<close>

definition ada_element :: "string \<Rightarrow> feed_element" where
  "ada_element href = \<lparr>fe_href = Href href, fe_inner_text = Some ''12K''\<rparr>"

definition still_feed :: "string \<Rightarrow> nat \<Rightarrow> exn + scroll_round" where
  "still_feed href n =
     Inr \<lparr>sr_elements = [ada_element href], sr_current_height = 100, sr_new_height = 100\<rparr>"

text \<open>
  A feed without items whose height is 100 up to round 10, shrinks to 90 in that round
  and stays there: it never grows.
\<close>

definition dip_feed :: "nat \<Rightarrow> exn + scroll_round" where
  "dip_feed n =
     Inr \<lparr>sr_elements = [], sr_current_height = (if n \<le> 10 then 100 else 90),
          sr_new_height = (if n < 10 then 100 else 90)\<rparr>"

text \<open>A feed that shows the given elements in every round and keeps its height.\<close>

definition shown_feed :: "feed_element list \<Rightarrow> nat \<Rightarrow> exn + scroll_round" where
  "shown_feed els n = Inr \<lparr>sr_elements = els, sr_current_height = 100, sr_new_height = 100\<rparr>"

definition json_page :: "string \<Rightarrow> feed_page" where
  "json_page script =
     \<lparr>fp_goto = None, fp_refresh = Present None, fp_script = Inr (Some script),
      fp_rounds = still_feed ''https://www.tiktok.com/@ada/video/7001''\<rparr>"

definition scroll_page :: "string \<Rightarrow> feed_page" where
  "scroll_page href =
     \<lparr>fp_goto = None, fp_refresh = Present None, fp_script = Inr None, fp_rounds = still_feed href\<rparr>"

definition scrolled_item :: pyval where
  "scrolled_item =
     PDict [(''id'', PStr ''7001''),
            (''url'', PStr ''https://www.tiktok.com/@ada/video/7001''),
            (''stats_text'', PStr ''12K''),
            (''scraped_via'', PStr ''html_scroll''),
            (''stats'', PDict [(''views'', PInt 0), (''likes'', PInt 0),
                               (''comments'', PInt 0), (''shares'', PInt 0)])]"

text \<open>The record of the same video reached through another host.\<close>

definition mobile_item :: pyval where
  "mobile_item =
     PDict [(''id'', PStr ''7001''),
            (''url'', PStr ''https://m.tiktok.com/@ada/video/7001''),
            (''stats_text'', PStr ''12K''),
            (''scraped_via'', PStr ''html_scroll''),
            (''stats'', PDict [(''views'', PInt 0), (''likes'', PInt 0),
                               (''comments'', PInt 0), (''shares'', PInt 0)])]"

definition parsed_item :: pyval where
  "parsed_item =
     PDict [(''id'', PStr ''7001''), (''description'', PStr ''hello''), (''created_at'', PNone),
            (''author'', PDict [(''id'', PNone), (''username'', PStr ''ada''), (''nickname'', PNone),
                                (''verified'', PBool False), (''avatar'', PNone)]),
            (''stats'', PDict [(''views'', PInt 0), (''likes'', PInt 0),
                               (''comments'', PInt 3), (''shares'', PInt 0)]),
            (''video'', PDict [(''duration'', PInt 10), (''ratio'', PNone), (''cover'', PNone),
                               (''download_url'', PNone), (''play_url'', PNone)]),
            (''music'', PDict [(''id'', PNone), (''title'', PNone), (''author'', PNone)]),
            (''hashtags'', PList []),
            (''url'', PStr ''https://www.tiktok.com/@ada/video/7001'')]"

definition detailed_item :: pyval where
  "detailed_item =
     PDict [(''url'', PStr ''https://www.tiktok.com/@ada/video/7001''),
            (''scraped_via'', PStr ''video_page''),
            (''id'', PStr ''7001''), (''description'', PStr ''hello''), (''created_at'', PNone),
            (''stats'', PDict [(''views'', PInt 0), (''likes'', PInt 0), (''comments'', PInt 3),
                               (''shares'', PInt 0), (''saves'', PInt 0)])]"

section \<open>CountParser\<close>

text \<open>The five values the specification lists for the count parser are what the code returns.\<close>

lemma parse_count_listed_values:
  "parse_count ''1.2K'' = 1200 \<and> parse_count ''3M'' = 3000000 \<and> parse_count ''42'' = 42
   \<and> parse_count [] = 0 \<and> parse_count ''abc'' = 0"
  by code_simp

text \<open>
  Claim C8 says that a text with \<open>K\<close> yields the numeric prefix times 1000. The code
  multiplies in floating point and truncates, so for the like count \<open>32.3K\<close> it returns
  32299 and not 32300: the double nearest to 32.3 lies below it, and so does the product.
\<close>

theorem parse_count_fraction_truncated:
  "parse_count ''32.3K'' = 32299"
  by code_simp

text \<open>
  Claim C10: \<open>_parse_count\<close> returns an integer for every text, and the integer may be
  negative: \<open>-2K\<close> gives -2000. Whatever it returns for the text of the like element
  becomes the \<open>likes\<close> of the comment record, with no check in between.
\<close>

theorem parse_count_negative_reaches_likes:
  "parse_count ''-2K'' = - 2000
   \<and> extract_comment_data (like_node t) =
       Some (PDict [(''text'', PStr ''nice''), (''author'', PStr ''Unknown''),
                    (''likes'', PInt (parse_count t)), (''timestamp'', PStr [])])"
proof
  show "parse_count ''-2K'' = - 2000"
    by code_simp
  show "extract_comment_data (like_node t) =
       Some (PDict [(''text'', PStr ''nice''), (''author'', PStr ''Unknown''),
                    (''likes'', PInt (parse_count t)), (''timestamp'', PStr [])])"
    by (simp add: extract_comment_data_def like_node_def text_selectors_def
        username_selectors_def like_selectors_def time_selectors_def query_node_def
        strip_def is_space_def code_def)
qed

section \<open>CommentHarvester\<close>

text \<open>
  Claim C3 says the harvester returns comment records only, at most \<open>max_comments\<close> of
  them, and no element handles. On a panel showing one comment and with
  \<open>max_comments = 1\<close> the code returns two entries: the handle of the node, then the
  record extracted from it.
\<close>

theorem comment_list_keeps_handles:
  "scrape_comments_from_page one_comment_panel 1 =
     [PHandle hi_node,
      PDict [(''text'', PStr ''hi''), (''author'', PStr ''Unknown''),
             (''likes'', PInt 0), (''timestamp'', PStr [])]]"
  by code_simp

section \<open>FeedSession\<close>

text \<open>
  Claim C6: when loading the feed page times out or the navigation raises another
  error, \<open>scrape_hashtag\<close> returns a record with the hashtag, an empty list of videos and
  an \<open>error\<close> field (\<open>timeout\<close>, or the text of the error); nothing is raised.
\<close>

theorem navigation_failure_gives_error_record:
  assumes "fp_goto page = Some e"
  shows "scrape_hashtag rt page visit hashtag max_videos detailed scrape_comments max_comments =
           Some (PDict [(''hashtag'', PStr (dropWhile (\<lambda>c. c = CHR ''#'') hashtag)),
                        (''videos'', PList []),
                        (''error'', PStr (case e of PlaywrightTimeout \<Rightarrow> ''timeout''
                                                  | Error msg \<Rightarrow> msg))])"
  using assms by (simp add: scrape_hashtag_def error_result_def)

theorem navigation_failure_gives_error_record_witness:
  "scrape_hashtag rt0 ((json_page ''FEED'')\<lparr>fp_goto := Some PlaywrightTimeout\<rparr>)
       (\<lambda>i u. rich_detail) ''#ada'' 5 True True 20 =
     Some (PDict [(''hashtag'', PStr ''ada''), (''videos'', PList []),
                  (''error'', PStr ''timeout'')])"
  using navigation_failure_gives_error_record
    [of "(json_page ''FEED'')\<lparr>fp_goto := Some PlaywrightTimeout\<rparr>" PlaywrightTimeout
        rt0 "\<lambda>i u. rich_detail" "''#ada''" 5 True True 20]
  by simp

text \<open>
  Claim C7 says a feed page without the Refresh button is scraped all the same. The code
  clicks the button unconditionally inside the \<open>try\<close>; on a page that has the payload
  with one item but no such button the click times out and the session ends with the
  \<open>timeout\<close> record and no videos, where the same page with the button yields the item.
\<close>

theorem missing_refresh_button_ends_session:
  "scrape_hashtag rt0 ((json_page ''FEED'')\<lparr>fp_refresh := Absent\<rparr>)
       (\<lambda>i u. rich_detail) ''#ada'' 5 False False 20 =
     Some (PDict [(''hashtag'', PStr ''ada''), (''videos'', PList []),
                  (''error'', PStr ''timeout'')])
   \<and> scrape_hashtag rt0 (json_page ''FEED'') (\<lambda>i u. rich_detail) ''#ada'' 5 False False 20 =
     Some (PDict [(''hashtag'', PStr ''ada''), (''scraped_at'', PStr ''2024-01-01T00:00:00''),
                  (''hashtag_info'', PDict []), (''videos'', PList [parsed_item])])"
  by code_simp

text \<open>
  Claim C2 says detail enrichment, when requested, is applied to every collected item,
  also to those of the structured payload. The enrichment loop sits in
  \<open>_scrape_videos_by_scrolling\<close> only: with the payload present and enrichment
  requested, the item is returned as parsed from the feed, although every detail page
  of the session would have delivered the detailed record.
\<close>

theorem payload_items_are_not_enriched:
  "scrape_hashtag rt0 (json_page ''FEED'') (\<lambda>i u. rich_detail) ''#ada'' 5 True False 20 =
     Some (PDict [(''hashtag'', PStr ''ada''), (''scraped_at'', PStr ''2024-01-01T00:00:00''),
                  (''hashtag_info'', PDict []), (''videos'', PList [parsed_item])])
   \<and> scrape_hashtag rt0 (scroll_page ''https://www.tiktok.com/@ada/video/7001'')
       (\<lambda>i u. rich_detail) ''#ada'' 5 True False 20 =
     Some (PDict [(''hashtag'', PStr ''ada''), (''videos'', PList [detailed_item])])"
  by code_simp

section \<open>DetailEnricher\<close>

lemma map_of_dset: "map_of (dset d k v) k' = (if k' = k then Some v else map_of d k')"
  by (induction d) auto

lemma enrich_length:
  "enrich rt visit sc mc i vs = Inr ds \<Longrightarrow> length ds = length vs"
proof (induction vs arbitrary: i ds)
  case Nil
  then show ?case by simp
next
  case (Cons v vs)
  then show ?case
    by (auto split: option.splits sum.splits)
qed

lemma enrich_nth:
  "enrich rt visit sc mc i vs = Inr ds \<Longrightarrow> k < length vs \<Longrightarrow> py_item (vs ! k) ''url'' = Some url \<Longrightarrow>
     ds ! k = (case detailed_info_of rt visit sc mc (i + k) url of None \<Rightarrow> vs ! k | Some d \<Rightarrow> PDict d)"
proof (induction vs arbitrary: i k ds)
  case Nil
  then show ?case by simp
next
  case (Cons v vs)
  from Cons.prems(1) obtain url0 ds' where
    u0: "py_item v ''url'' = Some url0" and
    rest: "enrich rt visit sc mc (Suc i) vs = Inr ds'" and
    ds: "ds = (case detailed_info_of rt visit sc mc i url0 of None \<Rightarrow> v | Some d \<Rightarrow> PDict d) # ds'"
    by (auto split: option.splits sum.splits)
  show ?case
  proof (cases k)
    case 0
    with Cons.prems(3) u0 ds show ?thesis by (simp split: option.splits)

  next
    case (Suc k')
    with Cons.prems have "k' < length vs" and "py_item (vs ! k') ''url'' = Some url" by simp_all
    from Cons.IH[OF rest this] Suc ds show ?thesis by (simp split: option.splits)
  qed
qed

lemma parse_details_fixed_fields:
  assumes "parse_video_details_json data url = Some d"
  shows "map_of d ''url'' = Some url \<and> map_of d ''scraped_via'' = Some (PStr ''video_page'')"
  using assms
  by (auto simp: parse_video_details_json_def split: option.splits pyval.splits Option.bind_splits)

lemma attach_comments_keeps:
  assumes "attach_comments panel mc d = Some d'" and "k \<noteq> ''comments''"
  shows "map_of d' k = map_of d k"
  using assms
  by (auto simp: attach_comments_def Let_def map_of_dset split: option.splits if_splits)

lemma details_fixed_fields:
  assumes "scrape_video_details rt page url sc mc = Some d"
  shows "map_of d ''url'' = Some url \<and> map_of d ''scraped_via'' = Some (PStr ''video_page'')"
proof -
  from assms obtain data d0 where
    p: "parse_video_details_json data url = Some d0" and
    d: "d = d0 \<or> attach_comments (dp_comments page) mc d0 = Some d"
    by (auto simp: scrape_video_details_def video_details_try_def
        split: if_splits sum.splits option.splits)
  from d show ?thesis
  proof
    assume "d = d0"
    with parse_details_fixed_fields[OF p] show ?thesis by simp
  next
    assume a: "attach_comments (dp_comments page) mc d0 = Some d"
    have "map_of d ''url'' = map_of d0 ''url''" "map_of d ''scraped_via'' = map_of d0 ''scraped_via''"
      using attach_comments_keeps[OF a] by simp_all
    with parse_details_fixed_fields[OF p] show ?thesis by simp
  qed
qed

text \<open>
  A detail page without an embedded script, with one that is no JSON, or with a payload
  lacking the item makes \<open>scrape_video_details\<close> return \<open>None\<close>.
\<close>

lemma missing_payload_gives_none:
  assumes "dp_script page = Inr None
           \<or> (\<exists>s. dp_script page = Inr (Some s)
                  \<and> (json_loads rt s = None
                       \<or> (\<exists>data. json_loads rt s = Some data
                                   \<and> parse_video_details_json data url = None)))"
  shows "scrape_video_details rt page url scrape_comments max_comments = None"
  using assms by (auto simp: scrape_video_details_def video_details_try_def)

text \<open>
  Claim C4: when \<open>scrape_video_details\<close> returns \<open>None\<close> for an item (no payload on the
  detail page, a payload that does not parse, or any exception on the way), the
  enrichment loop puts the basic record itself at the item's place: the list keeps its
  length and the entry is the input entry, field for field.
\<close>

theorem enrichment_failure_keeps_item:
  assumes "enrich rt visit scrape_comments max_comments i vs = Inr ds"
    and "k < length vs"
    and "py_item (vs ! k) ''url'' = Some (PStr u)"
    and "scrape_video_details rt (visit (i + k) u) (PStr u) scrape_comments max_comments = None"
  shows "length ds = length vs \<and> ds ! k = vs ! k"
  using enrich_length[OF assms(1)] enrich_nth[OF assms(1,2,3)] assms(4)
  by (simp add: detailed_info_of_def)

text \<open>The scrolled item against a detail page without an embedded script.\<close>

theorem enrichment_failure_keeps_item_witness:
  "enrich rt0 (\<lambda>i u. bare_detail) True 20 0 [scrolled_item] = Inr [scrolled_item]
   \<and> scrape_video_details rt0 bare_detail (PStr ''https://www.tiktok.com/@ada/video/7001'') True 20 = None
   \<and> length [scrolled_item] = length [scrolled_item] \<and> [scrolled_item] ! 0 = scrolled_item"
proof -
  have e: "enrich rt0 (\<lambda>i u. bare_detail) True 20 0 [scrolled_item] = Inr [scrolled_item]"
    by code_simp
  have u: "py_item ([scrolled_item] ! 0) ''url'' = Some (PStr ''https://www.tiktok.com/@ada/video/7001'')"
    by code_simp
  have n: "scrape_video_details rt0 ((\<lambda>i u. bare_detail) (0 + 0) ''https://www.tiktok.com/@ada/video/7001'')
       (PStr ''https://www.tiktok.com/@ada/video/7001'') True 20 = None"
    by code_simp
  from enrichment_failure_keeps_item[OF e _ u n] e n show ?thesis by simp
qed

text \<open>
  Claim C9 says the provenance of an item survives a successful enrichment. The scroll
  collector marks the item \<open>html_scroll\<close>; the enrichment loop replaces the whole
  record by the one built from the detail page, which is marked \<open>video_page\<close>.
\<close>

theorem provenance_replaced_counterexample:
  "scrape_videos_by_scrolling rt0 (still_feed ''https://www.tiktok.com/@ada/video/7001'')
       (\<lambda>i u. rich_detail) 5 False False 20 = Some (Inr [scrolled_item])
   \<and> py_item scrolled_item ''scraped_via'' = Some (PStr ''html_scroll'')
   \<and> scrape_videos_by_scrolling rt0 (still_feed ''https://www.tiktok.com/@ada/video/7001'')
       (\<lambda>i u. rich_detail) 5 True False 20 = Some (Inr [detailed_item])
   \<and> py_item detailed_item ''scraped_via'' = Some (PStr ''video_page'')"
  by code_simp

text \<open>
  Claim C9 as amended: for every item whose enrichment succeeds, the final entry is the
  record built from the detail page; it carries the item's \<open>url\<close> and the provenance
  \<open>video_page\<close>.
\<close>

theorem enrichment_replaces_provenance:
  assumes "enrich rt visit scrape_comments max_comments i vs = Inr ds"
    and "k < length vs"
    and "py_item (vs ! k) ''url'' = Some (PStr u)"
    and "scrape_video_details rt (visit (i + k) u) (PStr u) scrape_comments max_comments = Some d"
  shows "ds ! k = PDict d \<and> map_of d ''url'' = Some (PStr u)
         \<and> map_of d ''scraped_via'' = Some (PStr ''video_page'')"
  using enrich_nth[OF assms(1,2,3)] assms(4) details_fixed_fields[OF assms(4)]
  by (simp add: detailed_info_of_def)

text \<open>The scrolled item against a detail page that has the payload.\<close>

theorem enrichment_replaces_provenance_witness:
  "enrich rt0 (\<lambda>i u. rich_detail) False 20 0 [scrolled_item] = Inr [detailed_item]
   \<and> map_of (case detailed_item of PDict d \<Rightarrow> d | _ \<Rightarrow> []) ''scraped_via'' = Some (PStr ''video_page'')"
proof -
  have e: "enrich rt0 (\<lambda>i u. rich_detail) False 20 0 [scrolled_item] = Inr [detailed_item]"
    by code_simp
  have u: "py_item ([scrolled_item] ! 0) ''url'' = Some (PStr ''https://www.tiktok.com/@ada/video/7001'')"
    by code_simp
  have n: "scrape_video_details rt0 ((\<lambda>i u. rich_detail) (0 + 0) ''https://www.tiktok.com/@ada/video/7001'')
       (PStr ''https://www.tiktok.com/@ada/video/7001'') False 20 =
     Some (case detailed_item of PDict d \<Rightarrow> d | _ \<Rightarrow> [])"
    by code_simp
  from enrichment_replaces_provenance[OF e _ u n] e show ?thesis by simp
qed

section \<open>ScrollCollector\<close>

lemma collect_one_prefix: "prefix vs (collect_one el vs)"
  by (simp add: collect_one_def split: href_result.splits option.splits)

lemma collect_one_length: "length (collect_one el vs) \<le> Suc (length vs)"
  by (simp add: collect_one_def split: href_result.splits option.splits)

lemma collect_prefix: "prefix vs (collect mx els vs)"
proof (induction els arbitrary: vs)
  case Nil
  then show ?case by simp
next
  case (Cons el els)
  have "prefix vs (collect_one el vs)" by (rule collect_one_prefix)
  also have "prefix (collect_one el vs) (collect mx els (collect_one el vs))" by (rule Cons.IH)
  finally show ?case by simp
qed

lemma collect_bound:
  "int (length vs) \<le> max mx 0 \<Longrightarrow> int (length (collect mx els vs)) \<le> max mx 0"
proof (induction els arbitrary: vs)
  case Nil
  then show ?case by simp
next
  case (Cons el els)
  show ?case
  proof (cases "mx \<le> int (length vs)")
    case True
    with Cons.prems show ?thesis by simp
  next
    case False
    with collect_one_length[of el vs] have "int (length (collect_one el vs)) \<le> max mx 0" by simp
    from Cons.IH[OF this] False show ?thesis by simp
  qed
qed

lemma state_after_bound: "int (length (st_videos (state_after feed mx k))) \<le> max mx 0"
proof (induction k)
  case 0
  then show ?case by (simp add: start_def)
next
  case (Suc k)
  then show ?case by (simp add: scroll_step_def collect_bound split: sum.splits)
qed

lemma state_after_prefix_step:
  "prefix (st_videos (state_after feed mx k)) (st_videos (state_after feed mx (Suc k)))"
  by (simp add: scroll_step_def collect_prefix split: sum.splits)

lemma state_after_prefix:
  "j \<le> k \<Longrightarrow> prefix (st_videos (state_after feed mx j)) (st_videos (state_after feed mx k))"
proof (induction k)
  case 0
  then show ?case by simp
next
  case (Suc k)
  show ?case
  proof (cases "j = Suc k")
    case True
    then show ?thesis by simp
  next
    case False
    with Suc.prems have "j \<le> k" by simp
    from Suc.IH[OF this] state_after_prefix_step[of feed mx k] show ?thesis
      by (rule prefix_order.trans)
  qed
qed

lemma state_after_rounds:
  "(\<And>j. j < k \<Longrightarrow> \<exists>r. feed j = Inr r) \<Longrightarrow> st_rounds (state_after feed mx k) = k"
proof (induction k)
  case 0
  then show ?case by (simp add: start_def)
next
  case (Suc k)
  from Suc.prems[of k] obtain r where r: "feed k = Inr r" by auto
  from Suc.prems have "st_rounds (state_after feed mx k) = k" by (intro Suc.IH) auto
  with r show ?case by (simp add: scroll_step_def)
qed


lemma state_after_attempts:
  assumes still: "\<And>n. N \<le> n \<Longrightarrow> \<not> height_changed (feed n)"
  shows "(\<And>j. j < k \<Longrightarrow> \<exists>r. feed j = Inr r) \<Longrightarrow> k - N \<le> st_attempts (state_after feed mx k)"
proof (induction k)
  case 0
  then show ?case by simp
next
  case (Suc k)
  from Suc.prems[of k] obtain r where r: "feed k = Inr r" by auto
  from Suc.prems have ih: "k - N \<le> st_attempts (state_after feed mx k)" by (intro Suc.IH) auto
  show ?case
  proof (cases "N \<le> k")
    case True
    with still[of k] r have "sr_new_height r = sr_current_height r" by (simp add: height_changed_def)
    with r ih True show ?thesis by (simp add: scroll_step_def)
  next
    case False
    then show ?thesis by simp
  qed
qed

lemma scroll_loop_unfold:
  "(\<And>j. j < k \<Longrightarrow> scroll_on mx (state_after feed mx j) \<and> (\<exists>r. feed j = Inr r)) \<Longrightarrow>
     scroll_loop feed mx start = scroll_loop feed mx (state_after feed mx k)"
proof (induction k)
  case 0
  then show ?case by simp
next
  case (Suc k)
  from Suc.prems[of k] obtain r where on: "scroll_on mx (state_after feed mx k)" and r: "feed k = Inr r"
    by auto
  have rounds: "st_rounds (state_after feed mx k) = k"
    using Suc.prems by (intro state_after_rounds) auto
  have "scroll_loop feed mx start = scroll_loop feed mx (state_after feed mx k)"
    using Suc.prems by (intro Suc.IH) auto
  also have "\<dots> = scroll_loop feed mx (scroll_step mx r (state_after feed mx k))"
    using on r rounds by (subst scroll_loop.simps) simp
  finally show ?case using r by simp
qed

lemma py_take_all: "int (length vs) \<le> max mx 0 \<Longrightarrow> py_take mx vs = vs"
  by (auto simp: py_take_def)

text \<open>The counter of stagnant rounds is the length of the run of unchanged rounds.\<close>

lemma stagnant_run_step:
  assumes "stagnant_run feed j a" and "feed j = Inr r"
  shows "stagnant_run feed (Suc j) (if sr_new_height r = sr_current_height r then a + 1 else 0)"
proof (cases "sr_new_height r = sr_current_height r")
  case True
  from assms(1) have a: "a \<le> j"
    and run: "list_all (\<lambda>i. \<not> height_changed (feed i)) [j - a..<j]"
    and before: "a = j \<or> height_changed (feed (j - Suc a))"
    by (simp_all add: stagnant_run_def)
  have same: "\<not> height_changed (feed j)" using True assms(2) by (simp add: height_changed_def)
  have "[Suc j - (a + 1)..<Suc j] = [j - a..<j] @ [j]" using a by simp
  with run same before a True show ?thesis by (simp add: stagnant_run_def)
next
  case False
  with assms(2) have "height_changed (feed j)" by (simp add: height_changed_def)
  with False show ?thesis by (simp add: stagnant_run_def)
qed

lemma state_after_run:
  "(\<And>i. i < j \<Longrightarrow> \<exists>r. feed i = Inr r) \<Longrightarrow> stagnant_run feed j (st_attempts (state_after feed mx j))"
proof (induction j)
  case 0
  then show ?case by (simp add: stagnant_run_def start_def)
next
  case (Suc j)
  from Suc.prems[of j] obtain r where r: "feed j = Inr r" by auto
  from Suc.prems have "stagnant_run feed j (st_attempts (state_after feed mx j))"
    by (intro Suc.IH) auto
  from stagnant_run_step[OF this r] r show ?case by (simp add: scroll_step_def)
qed

text \<open>The list grows by the records of the elements shown, place after place.\<close>

lemma record_is_dict: "record_of el = Some v \<Longrightarrow> \<exists>d. v = PDict d"
  by (auto simp: record_of_def extract_video_info_from_element_def
      split: href_result.splits if_splits option.splits)

lemma collect_one_cases:
  "collect_one el vs = vs \<or> (\<exists>v. collect_one el vs = vs @ [v] \<and> record_of el = Some v)"
  by (auto simp: collect_one_def record_of_def split: href_result.splits option.splits)

lemma drop_ConsD:
  assumes "drop i xs = y # ys"
  shows "i < length xs \<and> xs ! i = y \<and> drop (Suc i) xs = ys"
proof -
  from assms have i: "i < length xs" by (cases "i < length xs") auto
  from Cons_nth_drop_Suc[OF i] assms show ?thesis using i by simp
qed

lemma earlier_next: "earlier p (j, i) \<Longrightarrow> earlier p (j, Suc i)"
  by (auto simp: earlier_def)

lemma collect_discovered:
  assumes r: "feed j = Inr r"
  shows "drop i (sr_elements r) = els \<Longrightarrow> list_all2 (found_at feed) ps vs \<Longrightarrow> sorted_wrt earlier ps \<Longrightarrow>
         (\<forall>p\<in>set ps. earlier p (j, i)) \<Longrightarrow>
         \<exists>ps'. list_all2 (found_at feed) ps' (collect mx els vs) \<and> sorted_wrt earlier ps'
               \<and> (\<forall>p\<in>set ps'. fst p \<le> j)"
proof (induction els arbitrary: i ps vs)
  case Nil
  then show ?case by (intro exI[of _ ps]) (auto simp: earlier_def)
next
  case (Cons el els)
  from drop_ConsD[OF Cons.prems(1)] have i: "i < length (sr_elements r)"
    and el: "sr_elements r ! i = el" and rest: "drop (Suc i) (sr_elements r) = els" by simp_all
  have next_ps: "\<forall>p\<in>set ps. earlier p (j, Suc i)" using Cons.prems(4) earlier_next by blast
  show ?case
  proof (cases "mx \<le> int (length vs)")
    case True
    with Cons.prems show ?thesis by (intro exI[of _ ps]) (auto simp: earlier_def)
  next
    case False
    from collect_one_cases[of el vs] show ?thesis
    proof
      assume same: "collect_one el vs = vs"
      from Cons.IH[OF rest Cons.prems(2,3) next_ps] False same show ?thesis by simp
    next
      assume "\<exists>v. collect_one el vs = vs @ [v] \<and> record_of el = Some v"
      then obtain v where app: "collect_one el vs = vs @ [v]" and v: "record_of el = Some v" by auto
      have found: "found_at feed (j, i) v" using r i el v by (simp add: found_at_def shown_def)
      have l2: "list_all2 (found_at feed) (ps @ [(j, i)]) (vs @ [v])"
        using Cons.prems(2) found by (intro list_all2_appendI) simp_all
      have so: "sorted_wrt earlier (ps @ [(j, i)])"
        using Cons.prems(3,4) by (simp add: sorted_wrt_append)
      have nx: "\<forall>p\<in>set (ps @ [(j, i)]). earlier p (j, Suc i)"
        using next_ps by (auto simp: earlier_def)
      from Cons.IH[OF rest l2 so nx] False app show ?thesis by simp
    qed
  qed
qed

lemma state_after_discovered:
  "(\<And>i. i < j \<Longrightarrow> \<exists>r. feed i = Inr r) \<Longrightarrow> \<exists>ps. discovered feed j ps (st_videos (state_after feed mx j))"
proof (induction j)
  case 0
  then show ?case by (intro exI[of _ "[]"]) (simp add: discovered_def start_def)
next
  case (Suc j)
  from Suc.prems[of j] obtain r where r: "feed j = Inr r" by auto
  from Suc.prems have "\<exists>ps. discovered feed j ps (st_videos (state_after feed mx j))"
    by (intro Suc.IH) auto
  then obtain ps where l2: "list_all2 (found_at feed) ps (st_videos (state_after feed mx j))"
    and so: "sorted_wrt earlier ps" and lt: "\<forall>p\<in>set ps. fst p < j"
    by (auto simp: discovered_def list_all_iff)
  from lt have e0: "\<forall>p\<in>set ps. earlier p (j, 0)" by (auto simp: earlier_def)
  have "drop 0 (sr_elements r) = sr_elements r" by simp
  from collect_discovered[OF r this l2 so e0, of mx]
  obtain ps' where "list_all2 (found_at feed) ps' (collect mx (sr_elements r) (st_videos (state_after feed mx j)))"
    "sorted_wrt earlier ps'" "\<forall>p\<in>set ps'. fst p \<le> j" by blast
  with r show ?case
    by (intro exI[of _ ps']) (auto simp: discovered_def scroll_step_def list_all_iff)
qed

lemma discovered_dicts:
  assumes "discovered feed j ps vs" and "v \<in> set vs"
  shows "\<exists>d. v = PDict d"
proof -
  from assms(1) have l2: "list_all2 (found_at feed) ps vs" by (simp add: discovered_def)
  from assms(2) obtain n where n: "n < length vs" "vs ! n = v" by (auto simp: in_set_conv_nth)
  with l2 have "found_at feed (ps ! n) v" by (auto simp: list_all2_conv_all_nth)
  then obtain el where "record_of el = Some v" by (auto simp: found_at_def split: option.splits)
  then show ?thesis by (rule record_is_dict)
qed

text \<open>Every element shown in a round is settled at the end of the round.\<close>

lemma urls_of_dicts: "(\<And>v. v \<in> set vs \<Longrightarrow> \<exists>d. v = PDict d) \<Longrightarrow> urls_of vs = Some (map video_url vs)"
proof (induction vs)
  case Nil
  then show ?case by (simp add: urls_of_def)
next
  case (Cons v vs)
  from Cons.prems[of v] obtain d where "v = PDict d" by auto
  moreover from Cons.prems have "urls_of vs = Some (map video_url vs)" by (intro Cons.IH) auto
  ultimately show ?case by (simp add: urls_of_def py_get_def video_url_def)
qed

lemma settled_full: "mx \<le> int (length vs) \<Longrightarrow> settled mx vs el"
  by (simp add: settled_def split: href_result.splits option.splits)

lemma settled_mono:
  assumes "settled mx vs el" and "prefix vs vs'"
  shows "settled mx vs' el"
proof -
  from assms(2) obtain zs where "vs' = vs @ zs" by (auto simp: prefix_def)
  with assms(1) show ?thesis
    by (auto simp: settled_def split: href_result.splits option.splits)
qed

lemma collect_one_settles:
  assumes "\<And>v. v \<in> set vs \<Longrightarrow> \<exists>d. v = PDict d"
  shows "settled mx (collect_one el vs) el"
proof -
  have "urls_of vs = Some (map video_url vs)" using assms by (rule urls_of_dicts)
  then show ?thesis
    by (auto simp: settled_def collect_one_def record_of_def split: href_result.splits option.splits)
qed

lemma collect_one_dicts:
  assumes "\<And>v. v \<in> set vs \<Longrightarrow> \<exists>d. v = PDict d" and "v \<in> set (collect_one el vs)"
  shows "\<exists>d. v = PDict d"
  using collect_one_cases[of el vs] assms record_is_dict by auto

lemma collect_settles:
  "(\<And>v. v \<in> set vs \<Longrightarrow> \<exists>d. v = PDict d) \<Longrightarrow> el \<in> set els \<Longrightarrow> settled mx (collect mx els vs) el"
proof (induction els arbitrary: vs)
  case Nil
  then show ?case by simp
next
  case (Cons e els)
  show ?case
  proof (cases "mx \<le> int (length vs)")
    case True
    then show ?thesis by (simp add: settled_full)
  next
    case False
    have dicts: "\<exists>d. v = PDict d" if "v \<in> set (collect_one e vs)" for v
      using Cons.prems(1) that by (rule collect_one_dicts)
    show ?thesis
    proof (cases "el = e")
      case True
      have "settled mx (collect_one e vs) e" using Cons.prems(1) by (rule collect_one_settles)
      from settled_mono[OF this collect_prefix] True False show ?thesis by simp
    next
      case ne: False
      with Cons.prems(2) have "el \<in> set els" by simp
      from Cons.IH[OF dicts this] False show ?thesis by simp
    qed
  qed
qed

lemma state_after_settled:
  assumes "\<And>i. i < j \<Longrightarrow> \<exists>r. feed i = Inr r"
  shows "i < j \<Longrightarrow> feed i = Inr r \<Longrightarrow> el \<in> set (sr_elements r) \<Longrightarrow>
         settled mx (st_videos (state_after feed mx j)) el"
  using assms
proof (induction j)
  case 0
  then show ?case by simp
next
  case (Suc j)
  have all: "\<exists>r. feed i = Inr r" if "i < j" for i using Suc.prems(4)[of i] that by simp
  show ?case
  proof (cases "i = j")
    case True
    from state_after_discovered[of j feed mx] all obtain ps where
      "discovered feed j ps (st_videos (state_after feed mx j))" by blast
    then have dicts: "\<exists>d. v = PDict d" if "v \<in> set (st_videos (state_after feed mx j))" for v
      using that by (rule discovered_dicts)
    from collect_settles[where mx = mx, OF dicts Suc.prems(3)] True Suc.prems(2) show ?thesis
      by (simp add: scroll_step_def)
  next
    case False
    with Suc.prems(1) have "i < j" by simp
    from Suc.IH[OF this Suc.prems(2,3)] all
    have "settled mx (st_videos (state_after feed mx j)) el" by blast
    from settled_mono[OF this state_after_prefix_step] show ?thesis .
  qed
qed


text \<open>
  Claim C5 says the loop stops as soon as 20 rounds in a row showed no growth of the
  height. The code counts the rounds that left the height unchanged and resets the
  counter on every change: on a feed whose height never grows but shrinks once, in
  round 10, the counter stands at 9 after the first 20 rounds, and the loop runs 31
  rounds.
\<close>

theorem unchanged_rounds_counterexample:
  "none_grew dip_feed 31
   \<and> st_attempts (state_after dip_feed 5 20) = 9
   \<and> scroll_loop dip_feed 5 start = Some (Inr \<lparr>st_videos = [], st_attempts = 20, st_rounds = 31\<rparr>)"
  by code_simp

text \<open>
  Claim C5 as amended: on a feed whose rounds leave the scroll height unchanged from
  some round \<open>N\<close> on, the scroll loop returns, after \<open>k \<le> N + 20\<close> rounds. In every state
  before, fewer than \<open>max_videos\<close> videos were collected and the counter was below 20;
  in the state returned one of the two fails (or round \<open>k\<close> raised). After any number
  \<open>j \<le> k\<close> of rounds the counter is the number of rounds in a row that left the height
  unchanged (a round that changes it, up or down, resets it), the list holds records of
  elements shown so far in the order of their places, every element shown so far is
  settled in it, and it is an initial part of the final list. The result holds at most
  \<open>max_videos\<close> videos, and the cut at \<open>max_videos\<close> drops none of them.
\<close>

theorem scroll_collection_terminates:
  assumes "\<forall>n\<ge>N. \<not> height_changed (feed n)"
  shows "\<exists>k\<le>N + 20. \<exists>res.
           scroll_loop feed max_videos start = Some res
         \<and> (\<forall>j<k. (\<exists>r. feed j = Inr r)
                  \<and> int (length (st_videos (state_after feed max_videos j))) < max_videos
                  \<and> st_attempts (state_after feed max_videos j) < 20)
         \<and> (\<forall>j\<le>k. st_rounds (state_after feed max_videos j) = j
                  \<and> stagnant_run feed j (st_attempts (state_after feed max_videos j))
                  \<and> (\<exists>ps. discovered feed j ps (st_videos (state_after feed max_videos j)))
                  \<and> (\<forall>i<j. \<forall>r. feed i = Inr r \<longrightarrow>
                        (\<forall>el\<in>set (sr_elements r).
                           settled max_videos (st_videos (state_after feed max_videos j)) el))
                  \<and> prefix (st_videos (state_after feed max_videos j))
                           (st_videos (state_after feed max_videos k)))
         \<and> (case res of
              Inl e \<Rightarrow>
                feed k = Inl e
                \<and> int (length (st_videos (state_after feed max_videos k))) < max_videos
                \<and> st_attempts (state_after feed max_videos k) < 20
            | Inr st \<Rightarrow>
                st = state_after feed max_videos k
                \<and> (max_videos \<le> int (length (st_videos st)) \<or> 20 \<le> st_attempts st)
                \<and> int (length (st_videos st)) \<le> max max_videos 0)
         \<and> scrape_videos_by_scrolling rt feed visit max_videos False scrape_comments max_comments =
             Some (case res of Inl e \<Rightarrow> Inl e | Inr st \<Rightarrow> Inr (st_videos st))
         \<and> (\<exists>out. scrape_videos_by_scrolling rt feed visit max_videos True scrape_comments
                    max_comments = Some out
                \<and> (case out of Inl e \<Rightarrow> True | Inr vs \<Rightarrow> int (length vs) \<le> max max_videos 0))"
proof -
  define going where
    "going j \<longleftrightarrow> scroll_on max_videos (state_after feed max_videos j) \<and> (\<exists>r. feed j = Inr r)" for j
  have "\<exists>k\<le>N + 20. \<not> going k"
  proof (rule ccontr)
    assume "\<not> (\<exists>k\<le>N + 20. \<not> going k)"
    then have all: "\<And>j. j \<le> N + 20 \<Longrightarrow> going j" by auto
    have "N + 20 - N \<le> st_attempts (state_after feed max_videos (N + 20))"
    proof (rule state_after_attempts)
      show "\<not> height_changed (feed n)" if "N \<le> n" for n using assms that by simp
      show "\<exists>r. feed j = Inr r" if "j < N + 20" for j using all[of j] that by (simp add: going_def)
    qed
    then have "\<not> scroll_on max_videos (state_after feed max_videos (N + 20))"
      by (simp add: scroll_on_def)
    with all[of "N + 20"] show False by (simp add: going_def)
  qed
  then obtain k0 where k0: "k0 \<le> N + 20" "\<not> going k0" by auto
  define k where "k = (LEAST j. \<not> going j)"
  have stop: "\<not> going k" unfolding k_def using k0(2) by (rule LeastI)
  have le: "k \<le> N + 20" unfolding k_def using Least_le[of "\<lambda>j. \<not> going j" k0] k0 by simp
  have before: "going j" if "j < k" for j
    using not_less_Least[of j "\<lambda>j. \<not> going j"] that unfolding k_def by simp
  have unfold: "scroll_loop feed max_videos start = scroll_loop feed max_videos (state_after feed max_videos k)"
    using before by (intro scroll_loop_unfold) (simp add: going_def)
  have rounds: "st_rounds (state_after feed max_videos k) = k"
    using before by (intro state_after_rounds) (simp add: going_def)
  let ?st = "state_after feed max_videos k"
  have A: "\<forall>j<k. (\<exists>r. feed j = Inr r)
                  \<and> int (length (st_videos (state_after feed max_videos j))) < max_videos
                  \<and> st_attempts (state_after feed max_videos j) < 20"
    using before by (simp add: going_def scroll_on_def)
  have B: "\<forall>j\<le>k. st_rounds (state_after feed max_videos j) = j
                  \<and> stagnant_run feed j (st_attempts (state_after feed max_videos j))
                  \<and> (\<exists>ps. discovered feed j ps (st_videos (state_after feed max_videos j)))
                  \<and> (\<forall>i<j. \<forall>r. feed i = Inr r \<longrightarrow>
                        (\<forall>el\<in>set (sr_elements r).
                           settled max_videos (st_videos (state_after feed max_videos j)) el))
                  \<and> prefix (st_videos (state_after feed max_videos j)) (st_videos ?st)"
  proof (intro allI impI)
    fix j
    assume j: "j \<le> k"
    have inr: "\<exists>r. feed i = Inr r" if "i < j" for i
      using before[of i] that j by (simp add: going_def)
    have 1: "st_rounds (state_after feed max_videos j) = j"
      using inr by (rule state_after_rounds)
    have 2: "stagnant_run feed j (st_attempts (state_after feed max_videos j))"
      using inr by (rule state_after_run)
    have 3: "\<exists>ps. discovered feed j ps (st_videos (state_after feed max_videos j))"
      using inr by (rule state_after_discovered)
    have 4: "\<forall>i<j. \<forall>r. feed i = Inr r \<longrightarrow>
               (\<forall>el\<in>set (sr_elements r).
                  settled max_videos (st_videos (state_after feed max_videos j)) el)"
      using state_after_settled[of j feed, OF inr] by blast
    have 5: "prefix (st_videos (state_after feed max_videos j)) (st_videos ?st)"
      using j by (rule state_after_prefix)
    from 1 2 3 4 5
    show "st_rounds (state_after feed max_videos j) = j
          \<and> stagnant_run feed j (st_attempts (state_after feed max_videos j))
          \<and> (\<exists>ps. discovered feed j ps (st_videos (state_after feed max_videos j)))
          \<and> (\<forall>i<j. \<forall>r. feed i = Inr r \<longrightarrow>
                (\<forall>el\<in>set (sr_elements r).
                   settled max_videos (st_videos (state_after feed max_videos j)) el))
          \<and> prefix (st_videos (state_after feed max_videos j)) (st_videos ?st)"
      by (intro conjI)
  qed
  show ?thesis
  proof (cases "scroll_on max_videos ?st")
    case False
    then have res: "scroll_loop feed max_videos start = Some (Inr ?st)"
      unfolding unfold by (subst scroll_loop.simps) simp
    have C: "case Inr ?st of
               Inl e \<Rightarrow>
                 feed k = Inl e
                 \<and> int (length (st_videos (state_after feed max_videos k))) < max_videos
                 \<and> st_attempts (state_after feed max_videos k) < 20
             | Inr st \<Rightarrow>
                 st = state_after feed max_videos k
                 \<and> (max_videos \<le> int (length (st_videos st)) \<or> 20 \<le> st_attempts st)
                 \<and> int (length (st_videos st)) \<le> max max_videos 0"
      using False state_after_bound[of feed max_videos k] by (auto simp: scroll_on_def)
    have plain: "scrape_videos_by_scrolling rt feed visit max_videos False scrape_comments max_comments =
            Some (case Inr ?st of Inl e \<Rightarrow> Inl e | Inr st \<Rightarrow> Inr (st_videos st))"
      by (simp add: scrape_videos_by_scrolling_def res py_take_all state_after_bound)
    have enriched: "\<exists>out. scrape_videos_by_scrolling rt feed visit max_videos True scrape_comments
                    max_comments = Some out
                \<and> (case out of Inl e \<Rightarrow> True | Inr vs \<Rightarrow> int (length vs) \<le> max max_videos 0)"
    proof (cases "enrich rt visit scrape_comments max_comments 0 (st_videos ?st)")
      case (Inl e)
      then show ?thesis by (simp add: scrape_videos_by_scrolling_def res)
    next
      case (Inr ds)
      from enrich_length[OF this] have "int (length ds) \<le> max max_videos 0"
        by (simp add: state_after_bound)
      with Inr show ?thesis
        by (simp add: scrape_videos_by_scrolling_def res py_take_all)
    qed
    show ?thesis
      apply (rule exI[of _ k])
      apply (rule conjI[OF le])
      apply (rule exI[of _ "Inr ?st"])
      apply (intro conjI)
      apply (rule res A B C plain enriched)+
      done
  next
    case True
    with stop obtain e where e: "feed k = Inl e"
      by (cases "feed k") (auto simp: going_def)
    with True rounds have res: "scroll_loop feed max_videos start = Some (Inl e)"
      unfolding unfold by (subst scroll_loop.simps) simp
    have C: "case Inl e of
               Inl e \<Rightarrow>
                 feed k = Inl e
                 \<and> int (length (st_videos (state_after feed max_videos k))) < max_videos
                 \<and> st_attempts (state_after feed max_videos k) < 20
             | Inr st \<Rightarrow>
                 st = state_after feed max_videos k
                 \<and> (max_videos \<le> int (length (st_videos st)) \<or> 20 \<le> st_attempts st)
                 \<and> int (length (st_videos st)) \<le> max max_videos 0"
      using True e by (simp add: scroll_on_def)
    have raised: "scrape_videos_by_scrolling rt feed visit max_videos detailed scrape_comments max_comments =
            Some (Inl e)" for detailed
      by (simp add: scrape_videos_by_scrolling_def res)
    have plain: "scrape_videos_by_scrolling rt feed visit max_videos False scrape_comments max_comments =
            Some (case Inl e of Inl e \<Rightarrow> Inl e | Inr st \<Rightarrow> Inr (st_videos st))"
      using raised[of False] by simp
    have enriched: "\<exists>out. scrape_videos_by_scrolling rt feed visit max_videos True scrape_comments
                    max_comments = Some out
                \<and> (case out of Inl e \<Rightarrow> True | Inr vs \<Rightarrow> int (length vs) \<le> max max_videos 0)"
      using raised[of True] by simp
    show ?thesis
      apply (rule exI[of _ k])
      apply (rule conjI[OF le])
      apply (rule exI[of _ "Inl e"])
      apply (intro conjI)
      apply (rule res A B C plain enriched)+
      done
  qed
qed

text \<open>
  The feed showing the same item in every round, with the height unchanged: \<open>N = 0\<close>, and
  the loop ends after 20 rounds with the one item.
\<close>

theorem scroll_collection_terminates_witness:
  "scroll_loop (still_feed ''https://www.tiktok.com/@ada/video/7001'') 5 start =
     Some (Inr \<lparr>st_videos = [scrolled_item], st_attempts = 20, st_rounds = 20\<rparr>)
   \<and> (\<exists>k\<le>0 + 20. \<exists>res.
           scroll_loop (still_feed ''https://www.tiktok.com/@ada/video/7001'') 5 start = Some res
         \<and> (\<forall>j<k. (\<exists>r. still_feed ''https://www.tiktok.com/@ada/video/7001'' j = Inr r)
                  \<and> int (length (st_videos (state_after (still_feed ''https://www.tiktok.com/@ada/video/7001'') 5 j))) < 5
                  \<and> st_attempts (state_after (still_feed ''https://www.tiktok.com/@ada/video/7001'') 5 j) < 20)
         \<and> (\<forall>j\<le>k. st_rounds (state_after (still_feed ''https://www.tiktok.com/@ada/video/7001'') 5 j) = j
                  \<and> stagnant_run (still_feed ''https://www.tiktok.com/@ada/video/7001'') j (st_attempts (state_after (still_feed ''https://www.tiktok.com/@ada/video/7001'') 5 j))
                  \<and> (\<exists>ps. discovered (still_feed ''https://www.tiktok.com/@ada/video/7001'') j ps (st_videos (state_after (still_feed ''https://www.tiktok.com/@ada/video/7001'') 5 j)))
                  \<and> (\<forall>i<j. \<forall>r. still_feed ''https://www.tiktok.com/@ada/video/7001'' i = Inr r \<longrightarrow>
                        (\<forall>el\<in>set (sr_elements r).
                           settled 5 (st_videos (state_after (still_feed ''https://www.tiktok.com/@ada/video/7001'') 5 j)) el))
                  \<and> prefix (st_videos (state_after (still_feed ''https://www.tiktok.com/@ada/video/7001'') 5 j))
                           (st_videos (state_after (still_feed ''https://www.tiktok.com/@ada/video/7001'') 5 k)))
         \<and> (case res of
              Inl e \<Rightarrow>
                still_feed ''https://www.tiktok.com/@ada/video/7001'' k = Inl e
                \<and> int (length (st_videos (state_after (still_feed ''https://www.tiktok.com/@ada/video/7001'') 5 k))) < 5
                \<and> st_attempts (state_after (still_feed ''https://www.tiktok.com/@ada/video/7001'') 5 k) < 20
            | Inr st \<Rightarrow>
                st = state_after (still_feed ''https://www.tiktok.com/@ada/video/7001'') 5 k
                \<and> (5 \<le> int (length (st_videos st)) \<or> 20 \<le> st_attempts st)
                \<and> int (length (st_videos st)) \<le> max 5 0)
         \<and> scrape_videos_by_scrolling rt0 (still_feed ''https://www.tiktok.com/@ada/video/7001'') (\<lambda>i u. rich_detail) 5 False False 20 =
             Some (case res of Inl e \<Rightarrow> Inl e | Inr st \<Rightarrow> Inr (st_videos st))
         \<and> (\<exists>out. scrape_videos_by_scrolling rt0 (still_feed ''https://www.tiktok.com/@ada/video/7001'') (\<lambda>i u. rich_detail) 5 True False 20 =
                    Some out
                \<and> (case out of Inl e \<Rightarrow> True | Inr vs \<Rightarrow> int (length vs) \<le> max 5 0)))"
proof
  show "scroll_loop (still_feed ''https://www.tiktok.com/@ada/video/7001'') 5 start =
     Some (Inr \<lparr>st_videos = [scrolled_item], st_attempts = 20, st_rounds = 20\<rparr>)"
    by code_simp
  have still: "\<forall>n\<ge>0. \<not> height_changed (still_feed ''https://www.tiktok.com/@ada/video/7001'' n)"
    by (simp add: height_changed_def still_feed_def)
  show "\<exists>k\<le>0 + 20. \<exists>res.
           scroll_loop (still_feed ''https://www.tiktok.com/@ada/video/7001'') 5 start = Some res
         \<and> (\<forall>j<k. (\<exists>r. still_feed ''https://www.tiktok.com/@ada/video/7001'' j = Inr r)
                  \<and> int (length (st_videos (state_after (still_feed ''https://www.tiktok.com/@ada/video/7001'') 5 j))) < 5
                  \<and> st_attempts (state_after (still_feed ''https://www.tiktok.com/@ada/video/7001'') 5 j) < 20)
         \<and> (\<forall>j\<le>k. st_rounds (state_after (still_feed ''https://www.tiktok.com/@ada/video/7001'') 5 j) = j
                  \<and> stagnant_run (still_feed ''https://www.tiktok.com/@ada/video/7001'') j (st_attempts (state_after (still_feed ''https://www.tiktok.com/@ada/video/7001'') 5 j))
                  \<and> (\<exists>ps. discovered (still_feed ''https://www.tiktok.com/@ada/video/7001'') j ps (st_videos (state_after (still_feed ''https://www.tiktok.com/@ada/video/7001'') 5 j)))
                  \<and> (\<forall>i<j. \<forall>r. still_feed ''https://www.tiktok.com/@ada/video/7001'' i = Inr r \<longrightarrow>
                        (\<forall>el\<in>set (sr_elements r).
                           settled 5 (st_videos (state_after (still_feed ''https://www.tiktok.com/@ada/video/7001'') 5 j)) el))
                  \<and> prefix (st_videos (state_after (still_feed ''https://www.tiktok.com/@ada/video/7001'') 5 j))
                           (st_videos (state_after (still_feed ''https://www.tiktok.com/@ada/video/7001'') 5 k)))
         \<and> (case res of
              Inl e \<Rightarrow>
                still_feed ''https://www.tiktok.com/@ada/video/7001'' k = Inl e
                \<and> int (length (st_videos (state_after (still_feed ''https://www.tiktok.com/@ada/video/7001'') 5 k))) < 5
                \<and> st_attempts (state_after (still_feed ''https://www.tiktok.com/@ada/video/7001'') 5 k) < 20
            | Inr st \<Rightarrow>
                st = state_after (still_feed ''https://www.tiktok.com/@ada/video/7001'') 5 k
                \<and> (5 \<le> int (length (st_videos st)) \<or> 20 \<le> st_attempts st)
                \<and> int (length (st_videos st)) \<le> max 5 0)
         \<and> scrape_videos_by_scrolling rt0 (still_feed ''https://www.tiktok.com/@ada/video/7001'') (\<lambda>i u. rich_detail) 5 False False 20 =
             Some (case res of Inl e \<Rightarrow> Inl e | Inr st \<Rightarrow> Inr (st_videos st))
         \<and> (\<exists>out. scrape_videos_by_scrolling rt0 (still_feed ''https://www.tiktok.com/@ada/video/7001'') (\<lambda>i u. rich_detail) 5 True False 20 =
                    Some out
                \<and> (case out of Inl e \<Rightarrow> True | Inr vs \<Rightarrow> int (length vs) \<le> max 5 0))"
    by (rule scroll_collection_terminates[OF still])
qed

lemma urls_of_Some: "urls_of vs = Some us \<Longrightarrow> us = map video_url vs"
proof (induction vs arbitrary: us)
  case Nil
  then show ?case by (simp add: urls_of_def)
next
  case (Cons v vs)
  then show ?case
    by (auto simp: urls_of_def py_get_def video_url_def split: option.splits pyval.splits)
qed

lemma collect_one_distinct:
  assumes "\<And>h. fe_href el = Href h \<Longrightarrow> startswith h ''http''"
    and "distinct (map video_url vs)"
  shows "distinct (map video_url (collect_one el vs))"
proof (cases "fe_href el")
  case (Href h)
  with assms(1) have abs: "startswith h ''http''" by simp
  show ?thesis
  proof (cases "urls_of vs")
    case None
    with Href assms(2) show ?thesis by (simp add: collect_one_def)
  next
    case (Some urls)
    then have urls: "urls = map video_url vs" by (rule urls_of_Some)
    show ?thesis
      using Href Some urls abs assms(2)
      by (auto simp: collect_one_def extract_video_info_from_element_def video_url_def dget_def
          split: option.splits)
  qed
qed (use assms(2) in \<open>simp_all add: collect_one_def\<close>)

lemma collect_distinct:
  assumes "\<And>el h. el \<in> set els \<Longrightarrow> fe_href el = Href h \<Longrightarrow> startswith h ''http''"
    and "distinct (map video_url vs)"
  shows "distinct (map video_url (collect mx els vs))"
  using assms
proof (induction els arbitrary: vs)
  case Nil
  then show ?case by simp
next
  case (Cons el els)
  have "distinct (map video_url (collect_one el vs))"
    using Cons.prems by (intro collect_one_distinct) auto
  then have "distinct (map video_url (collect mx els (collect_one el vs)))"
    using Cons.prems(1) by (intro Cons.IH) auto
  with Cons.prems(2) show ?case by simp
qed

lemma scroll_loop_distinct:
  assumes abs: "\<And>n r el h. feed n = Inr r \<Longrightarrow> el \<in> set (sr_elements r) \<Longrightarrow> fe_href el = Href h
                  \<Longrightarrow> startswith h ''http''"
    and run: "scroll_loop feed mx st = Some (Inr st')"
    and d: "distinct (map video_url (st_videos st))"
  shows "distinct (map video_url (st_videos st'))"
proof -
  define P where "P f m s y \<longleftrightarrow>
      (f = feed \<longrightarrow> distinct (map video_url (st_videos s)) \<longrightarrow>
         (\<forall>s'. y = Inr s' \<longrightarrow> distinct (map video_url (st_videos s'))))"
    for f :: "nat \<Rightarrow> exn + scroll_round" and m :: int and s :: scroll_state and y :: "exn + scroll_state"
  have "P feed mx st (Inr st')"
  proof (rule scroll_loop.raw_induct[where P = P, OF _ run])
    fix loop f m s y
    assume IH: "\<And>f m s y. loop f m s = Some y \<Longrightarrow> P f m s y"
      and body: "(if scroll_on m s
                  then case f (st_rounds s) of Inl e \<Rightarrow> Some (Inl e)
                       | Inr r \<Rightarrow> loop f m (scroll_step m r s)
                  else Some (Inr s)) = Some y"
    show "P f m s y"
      unfolding P_def
    proof (intro impI allI)
      fix s'
      assume f: "f = feed" and ds: "distinct (map video_url (st_videos s))" and y: "y = Inr s'"
      show "distinct (map video_url (st_videos s'))"
      proof (cases "scroll_on m s")
        case False
        with body y ds show ?thesis by simp
      next
        case True
        show ?thesis
        proof (cases "f (st_rounds s)")
          case (Inl e)
          with True body y show ?thesis by simp
        next
          case (Inr r)
          with True body have "loop f m (scroll_step m r s) = Some y" by simp
          from IH[OF this] have "P f m (scroll_step m r s) y" .
          moreover have "distinct (map video_url (st_videos (scroll_step m r s)))"
            using Inr f ds abs[of "st_rounds s" r] by (auto simp: scroll_step_def intro!: collect_distinct)
          ultimately show ?thesis using f y by (simp add: P_def)
        qed
      qed
    qed
  qed
  with d show ?thesis by (simp add: P_def)
qed

lemma item_url: "py_item v ''url'' = Some url \<Longrightarrow> video_url v = url"
  by (auto simp: py_item_def video_url_def dget_def split: pyval.splits)

lemma enrich_urls:
  "enrich rt visit sc mc i vs = Inr ds \<Longrightarrow> map video_url ds = map video_url vs"
proof (induction vs arbitrary: i ds)
  case Nil
  then show ?case by simp
next
  case (Cons v vs)
  from Cons.prems obtain url ds' where
    u: "py_item v ''url'' = Some url" and
    rest: "enrich rt visit sc mc (Suc i) vs = Inr ds'" and
    ds: "ds = (case detailed_info_of rt visit sc mc i url of None \<Rightarrow> v | Some d \<Rightarrow> PDict d) # ds'"
    by (auto split: option.splits sum.splits)
  have "video_url (case detailed_info_of rt visit sc mc i url of None \<Rightarrow> v | Some d \<Rightarrow> PDict d) = video_url v"
  proof (cases "detailed_info_of rt visit sc mc i url")
    case None
    then show ?thesis by simp
  next
    case (Some d)
    then obtain page where "scrape_video_details rt page url sc mc = Some d"
      by (auto simp: detailed_info_of_def split: pyval.splits)
    from details_fixed_fields[OF this] have "map_of d ''url'' = Some url" by simp
    with Some item_url[OF u] show ?thesis by (simp add: video_url_def dget_def)
  qed
  with Cons.IH[OF rest] ds show ?case by simp
qed

lemma distinct_py_take: "distinct (map f xs) \<Longrightarrow> distinct (map f (py_take n xs))"
  by (simp add: py_take_def take_map[symmetric] del: take_map)

text \<open>
  Claim C1 says no two returned items share a \<open>url\<close> or an \<open>id\<close>, whichever collector
  made them. The payload parser appends every entry it parses: an item listed under two
  item lists comes out twice. The scroll collector compares the \<open>href\<close> as read with
  the \<open>url\<close>s as stored, which differ for a relative \<open>href\<close>: the same relative link
  seen in two rounds is collected twice. And two links on different hosts to the same
  video give two records with the same \<open>id\<close>.
\<close>

theorem duplicate_urls_counterexample:
  "dget (parse_hashtag_json rt0 twice_payload ''ada'') ''videos'' PNone = PList [parsed_item, parsed_item]
   \<and> scrape_videos_by_scrolling rt0 (still_feed ''/@ada/video/7001'') (\<lambda>i u. rich_detail)
        2 False False 20 = Some (Inr [scrolled_item, scrolled_item])
   \<and> scrape_videos_by_scrolling rt0
        (shown_feed [ada_element ''https://www.tiktok.com/@ada/video/7001'',
                     ada_element ''https://m.tiktok.com/@ada/video/7001''])
        (\<lambda>i u. rich_detail) 5 False False 20 = Some (Inr [scrolled_item, mobile_item])"
  by code_simp

text \<open>
  Claim C1 as amended: when every link the feed shows is absolute (its \<open>href\<close> starts
  with \<open>http\<close>), the list \<open>_scrape_videos_by_scrolling\<close> returns, enriched or not, has
  no two entries with the same \<open>url\<close>.
\<close>

theorem scroll_urls_distinct:
  assumes "\<forall>n r. feed n = Inr r \<longrightarrow>
             (\<forall>el\<in>set (sr_elements r). \<forall>h. fe_href el = Href h \<longrightarrow> startswith h ''http'')"
    and "scrape_videos_by_scrolling rt feed visit max_videos detailed scrape_comments max_comments =
           Some (Inr vs)"
  shows "distinct (map video_url vs)"
proof -
  from assms(2) obtain st where
    run: "scroll_loop feed max_videos start = Some (Inr st)" and
    vs: "if detailed
         then \<exists>ds. enrich rt visit scrape_comments max_comments 0 (st_videos st) = Inr ds
                   \<and> vs = py_take max_videos ds
         else vs = py_take max_videos (st_videos st)"
    by (auto simp: scrape_videos_by_scrolling_def split: option.splits sum.splits if_splits)
  have "distinct (map video_url (st_videos st))"
  proof (rule scroll_loop_distinct[OF _ run])
    show "distinct (map video_url (st_videos start))" by (simp add: start_def)
    show "startswith h ''http''"
      if "feed n = Inr r" "el \<in> set (sr_elements r)" "fe_href el = Href h" for n r el h
      using assms(1) that by blast
  qed
  with vs show ?thesis
    by (auto simp: enrich_urls distinct_py_take split: if_splits)
qed

text \<open>
  The same absolute link shown in each of the 20 rounds yields exactly one item.
\<close>

theorem scroll_urls_distinct_witness:
  "scrape_videos_by_scrolling rt0 (still_feed ''https://www.tiktok.com/@ada/video/7001'')
       (\<lambda>i u. rich_detail) 5 False False 20 = Some (Inr [scrolled_item])
   \<and> distinct (map video_url [scrolled_item])"
proof -
  have abs: "\<forall>n r. still_feed ''https://www.tiktok.com/@ada/video/7001'' n = Inr r \<longrightarrow>
               (\<forall>el\<in>set (sr_elements r). \<forall>h. fe_href el = Href h \<longrightarrow> startswith h ''http'')"
    by (auto simp: still_feed_def ada_element_def)
  have run: "scrape_videos_by_scrolling rt0 (still_feed ''https://www.tiktok.com/@ada/video/7001'')
       (\<lambda>i u. rich_detail) 5 False False 20 = Some (Inr [scrolled_item])"
    by code_simp
  from scroll_urls_distinct[OF abs run] run show ?thesis by simp
qed

end
